theory Spec2Isabelle
  imports Main "HOL-Library.Multiset"
begin

section \<open>Data model\<close>

text \<open>
  A cue of \<^verbatim>\<open>logic.ts\<close> is the interface \<^verbatim>\<open>Subtitle { index, start, end, text }\<close>, four
  strings. The fields \<^verbatim>\<open>end\<close> and \<^verbatim>\<open>text\<close> carry a prime because the plain words are
  reserved.

  Strings are modelled as lists of 8-bit characters and read as ASCII text: the Unicode
  property classes of the regular expressions (\<^verbatim>\<open>\p{L}\<close>, \<^verbatim>\<open>\p{N}\<close>, \<^verbatim>\<open>\p{P}\<close>, \<^verbatim>\<open>\s\<close>) and
  the case mappings are restricted to their ASCII members; a character outside ASCII
  belongs to no class and is left alone by the case mappings. JavaScript numbers are
  modelled as unbounded integers, which is exact as long as every timestamp field stays
  below \<open>2 ^ 53\<close>.
\<close>

record Subtitle =
  index :: string
  start :: string
  end' :: string
  text' :: string

text \<open>The objects \<^verbatim>\<open>{ ...sub, startMs, endMs }\<close> built by \<^verbatim>\<open>mergeOverlappingSubtitles\<close>.\<close>

record SubtitleWithMs = Subtitle +
  startMs :: int
  endMs :: int

section \<open>Characters and strings\<close>

definition isSpace :: "char \<Rightarrow> bool" where
  \<comment> \<open>\<^verbatim>\<open>\s\<close> and the characters removed by \<^verbatim>\<open>trim()\<close>: space, TAB, LF, VT, FF, CR\<close>
  "isSpace c = (c \<in> set [CHR '' '', CHR 0x09, CHR 0x0A, CHR 0x0B, CHR 0x0C, CHR 0x0D])"

definition isDigit :: "char \<Rightarrow> bool" where
  \<comment> \<open>\<^verbatim>\<open>\d\<close>, and \<^verbatim>\<open>\p{N}\<close> within ASCII\<close>
  "isDigit c = (c \<in> set ''0123456789'')"

definition digitVal :: "char \<Rightarrow> int" where
  "digitVal c = int (of_char c) - 48"

text \<open>
  \<^verbatim>\<open>time.split(/[:,]/)\<close>: every colon or comma separates two parts; the result always has at
  least one part, and neighbouring separators give empty parts.
\<close>

fun splitAcc :: "(char \<Rightarrow> bool) \<Rightarrow> string \<Rightarrow> string \<Rightarrow> string list" where
  "splitAcc sep cur [] = [rev cur]"
| "splitAcc sep cur (c # cs) =
     (if sep c then rev cur # splitAcc sep [] cs else splitAcc sep (c # cur) cs)"

definition splitTime :: "string \<Rightarrow> string list" where
  "splitTime time = splitAcc (\<lambda>c. c = CHR '':'' \<or> c = CHR '','') [] time"

text \<open>
  \<^verbatim>\<open>parseInt(s, 10)\<close>: leading white space is skipped, one sign is accepted, then the
  longest run of decimal digits is read; with no digit the result is \<^verbatim>\<open>NaN\<close>, here \<open>None\<close>.
  A part that does not exist (\<^verbatim>\<open>parts[k]\<close> is \<^verbatim>\<open>undefined\<close>) parses to \<^verbatim>\<open>NaN\<close> as well.
\<close>

definition parseInt :: "string \<Rightarrow> int option" where
  "parseInt s =
     (let t = dropWhile isSpace s;
          neg = (t \<noteq> [] \<and> hd t = CHR ''-'');
          u = (if t \<noteq> [] \<and> (hd t = CHR ''-'' \<or> hd t = CHR ''+'') then tl t else t);
          ds = takeWhile isDigit u;
          v = foldl (\<lambda>acc c. acc * 10 + digitVal c) 0 ds
      in if ds = [] then None else Some (if neg then - v else v))"

definition parsePart :: "string list \<Rightarrow> nat \<Rightarrow> int option" where
  "parsePart parts k = (if k < length parts then parseInt (parts ! k) else None)"

text \<open>
  Within ASCII, \<^verbatim>\<open>\p{L}\<close> is the 52 letters and \<^verbatim>\<open>\p{P}\<close> the punctuation characters
  \<^verbatim>\<open>! " # % & ' ( ) * , - . / : ; ? @ [ \ ] _ { }\<close> (the characters \<^verbatim>\<open>$ + < = > ^ ` | ~\<close> are symbols,
  not punctuation).
\<close>

definition upperAZ :: string where "upperAZ = ''ABCDEFGHIJKLMNOPQRSTUVWXYZ''"
definition lowerAZ :: string where "lowerAZ = ''abcdefghijklmnopqrstuvwxyz''"

definition isLetter :: "char \<Rightarrow> bool" where
  "isLetter c = (c \<in> set (upperAZ @ lowerAZ))"

definition isPunct :: "char \<Rightarrow> bool" where
  "isPunct c = (c \<in> set (''!#%&()*,-./:;?@[]_{}'' @ [CHR 0x22, CHR 0x27, CHR 0x5C]))"

definition toLowerChar :: "char \<Rightarrow> char" where
  "toLowerChar c = (case map_of (zip upperAZ lowerAZ) c of Some d \<Rightarrow> d | None \<Rightarrow> c)"

definition toUpperChar :: "char \<Rightarrow> char" where
  "toUpperChar c = (case map_of (zip lowerAZ upperAZ) c of Some d \<Rightarrow> d | None \<Rightarrow> c)"

definition toLowerCase :: "string \<Rightarrow> string" where
  "toLowerCase s = map toLowerChar s"

definition toUpperCase :: "string \<Rightarrow> string" where
  "toUpperCase s = map toUpperChar s"

definition trim :: "string \<Rightarrow> string" where
  "trim s = rev (dropWhile isSpace (rev (dropWhile isSpace s)))"

text \<open>
  \<^verbatim>\<open>s.split(/\s+/)\<close>: every run of white space separates two parts; white space at either
  end of the string gives an empty first or last part, and the empty string gives one
  empty part.
\<close>

function splitWsAcc :: "string \<Rightarrow> string \<Rightarrow> string list" where
  "splitWsAcc cur [] = [rev cur]"
| "splitWsAcc cur (c # cs) =
     (if isSpace c then rev cur # splitWsAcc [] (dropWhile isSpace cs)
      else splitWsAcc (c # cur) cs)"
  by pat_completeness auto
termination
  by (relation "measure (\<lambda>(cur, s). length s)") (auto simp: length_dropWhile_le less_Suc_eq_le)

definition splitWs :: "string \<Rightarrow> string list" where
  "splitWs s = splitWsAcc [] s"

text \<open>
  \<^verbatim>\<open>str.replace(/<[^>]*>/g, '')\<close>: a \<^verbatim>\<open><\<close> that is followed somewhere by a \<^verbatim>\<open>>\<close> is removed
  together with everything up to and including the first such \<^verbatim>\<open>>\<close>.
\<close>

function stripHtml :: "string \<Rightarrow> string" where
  "stripHtml [] = []"
| "stripHtml (c # cs) =
     (if c = CHR ''<'' \<and> CHR ''>'' \<in> set cs
      then stripHtml (tl (dropWhile (\<lambda>x. x \<noteq> CHR ''>'') cs))
      else c # stripHtml cs)"
  by pat_completeness auto
termination
proof (relation "measure length")
  show "wf (measure length)" by simp
next
  fix c :: char and cs :: string
  have "length (tl (dropWhile (\<lambda>x. x \<noteq> CHR ''>'') cs)) \<le> length cs"
    using length_dropWhile_le[of "\<lambda>x. x \<noteq> CHR ''>''" cs] by simp
  then show "(tl (dropWhile (\<lambda>x. x \<noteq> CHR ''>'') cs), c # cs) \<in> measure length" by simp
next
  fix c :: char and cs :: string
  show "(cs, c # cs) \<in> measure length" by simp
qed

definition normalizeWords :: "string \<Rightarrow> string list" where
  "normalizeWords text =
     filter (\<lambda>w. w \<noteq> [])
       (splitWs (toLowerCase
          (map (\<lambda>c. if isLetter c \<or> isDigit c \<or> isSpace c \<or> c = CHR 0x27 then c else CHR '' '')
             text)))"

definition isNumberWord :: "string \<Rightarrow> bool" where
  "isNumberWord word = (word \<noteq> [] \<and> list_all isDigit word)"

section \<open>Interval utilities\<close>

definition srtTimeToMs :: "string \<Rightarrow> int" where
  "srtTimeToMs time =
     (let parts = splitTime time in
      case (parsePart parts 0, parsePart parts 1, parsePart parts 2, parsePart parts 3) of
        (Some h, Some m, Some s, Some ms) \<Rightarrow> h * 3600000 + m * 60000 + s * 1000 + ms
      | _ \<Rightarrow> 0)"

definition hasIntersection :: "string \<Rightarrow> string \<Rightarrow> string \<Rightarrow> string \<Rightarrow> bool" where
  "hasIntersection start1 end1 start2 end2 =
     (let start1Ms = srtTimeToMs start1;
          end1Ms = srtTimeToMs end1;
          start2Ms = srtTimeToMs start2;
          end2Ms = srtTimeToMs end2;
          intersectionStart = max start1Ms start2Ms;
          intersectionEnd = min end1Ms end2Ms
      in intersectionEnd - intersectionStart > 500)"

section \<open>The overlap merger\<close>

text \<open>
  \<^verbatim>\<open>mergeOverlappingSubtitles\<close> maps the track to objects with \<^verbatim>\<open>startMs\<close> and \<^verbatim>\<open>endMs\<close>, then
  walks the positions \<open>i\<close> of the track. For every position not yet in \<^verbatim>\<open>processed\<close> it
  starts \<^verbatim>\<open>overlappingGroup = [current]\<close> and repeats a scan over all positions \<open>j\<close> until a
  scan adds nothing; a scan adds every unprocessed \<open>j\<close> whose cue satisfies
  \<^verbatim>\<open>groupSub.startMs < other.endMs && other.startMs < groupSub.endMs\<close> for some member of
  the group built so far (members added earlier in the same scan included).

  The group holds references to the objects of \<^verbatim>\<open>subtitlesWithMs\<close>; the model names such a
  reference by the position of the object, so that two cues with equal fields stay two
  cues. \<^verbatim>\<open>processed\<close> is the set of positions, as in the source.
\<close>

definition withMs :: "Subtitle \<Rightarrow> SubtitleWithMs" where
  "withMs sub =
     \<lparr>index = index sub, start = start sub, end' = end' sub, text' = text' sub,
      startMs = srtTimeToMs (start sub), endMs = srtTimeToMs (end' sub)\<rparr>"

definition overlapsMs :: "SubtitleWithMs \<Rightarrow> SubtitleWithMs \<Rightarrow> bool" where
  "overlapsMs groupSub other = (startMs groupSub < endMs other \<and> startMs other < endMs groupSub)"

definition hasOverlap :: "SubtitleWithMs list \<Rightarrow> nat list \<Rightarrow> nat \<Rightarrow> bool" where
  "hasOverlap subs overlappingGroup j =
     list_ex (\<lambda>g. overlapsMs (subs ! g) (subs ! j)) overlappingGroup"

definition scanStep ::
  "SubtitleWithMs list \<Rightarrow> nat \<Rightarrow> nat list \<times> nat set \<times> bool \<Rightarrow> nat list \<times> nat set \<times> bool" where
  "scanStep subs j st =
     (case st of (overlappingGroup, processed, foundNewOverlap) \<Rightarrow>
        if j \<in> processed then st
        else if hasOverlap subs overlappingGroup j
             then (overlappingGroup @ [j], insert j processed, True)
             else st)"

definition scanPass ::
  "SubtitleWithMs list \<Rightarrow> nat list \<Rightarrow> nat set \<Rightarrow> nat list \<times> nat set \<times> bool" where
  "scanPass subs overlappingGroup processed =
     fold (scanStep subs) [0..<length subs] (overlappingGroup, processed, False)"

text \<open>
  The repeated scan ends: a scan that reports a new overlap has moved at least one
  position of the track into \<^verbatim>\<open>processed\<close>.
\<close>

lemma scanStep_simps:
  "scanStep subs j (g, P, f) =
     (if j \<in> P then (g, P, f)
      else if hasOverlap subs g j then (g @ [j], insert j P, True) else (g, P, f))"
  by (simp add: scanStep_def)

lemma scan_fold_shape:
  "fold (scanStep subs) js (g, P, f) = (g', P', f') \<Longrightarrow>
     \<exists>new. g' = g @ new \<and> P' = P \<union> set new \<and> set new \<subseteq> set js - P
        \<and> distinct new \<and> (f' = (f \<or> new \<noteq> []))"
proof (induction js arbitrary: g P f)
  case Nil
  then show ?case by auto
next
  case (Cons j js)
  show ?case
  proof (cases "j \<notin> P \<and> hasOverlap subs g j")
    case True
    then have "fold (scanStep subs) js (g @ [j], insert j P, True) = (g', P', f')"
      using Cons.prems by (simp add: scanStep_simps)
    from Cons.IH[OF this] obtain new where
      "g' = (g @ [j]) @ new" "P' = insert j P \<union> set new" "set new \<subseteq> set js - insert j P"
      "distinct new" "f' = (True \<or> new \<noteq> [])" by blast
    then show ?thesis using True by (intro exI[of _ "j # new"]) auto
  next
    case False
    then have "fold (scanStep subs) js (g, P, f) = (g', P', f')"
      using Cons.prems by (auto simp: scanStep_simps split: if_splits)
    from Cons.IH[OF this] show ?thesis by auto
  qed
qed

lemma scanPass_shape:
  assumes "scanPass subs g P = (g', P', f')"
  shows "\<exists>new. g' = g @ new \<and> P' = P \<union> set new \<and> set new \<subseteq> {..<length subs} - P
        \<and> distinct new \<and> (f' = (new \<noteq> []))"
proof -
  from scan_fold_shape[OF assms[unfolded scanPass_def]] obtain new where
    n: "g' = g @ new" "P' = P \<union> set new" "set new \<subseteq> set [0..<length subs] - P"
       "distinct new" "f' = (False \<or> new \<noteq> [])" by blast
  have "set new \<subseteq> {..<length subs} - P" using n(3) by auto
  then show ?thesis using n by auto
qed

lemma scanPass_decreases:
  assumes "scanPass subs g P = (g', P', True)"
  shows "card ({..<length subs} - P') < card ({..<length subs} - P)"
proof -
  from scanPass_shape[OF assms] obtain new where
    n: "P' = P \<union> set new" "set new \<subseteq> {..<length subs} - P" "new \<noteq> []" by auto
  then obtain z where z: "z \<in> set new" by (cases new) auto
  have "{..<length subs} - P' \<subset> {..<length subs} - P"
    using n z by auto
  then show ?thesis
    by (intro psubset_card_mono) auto
qed

function growGroup ::
  "SubtitleWithMs list \<Rightarrow> nat list \<Rightarrow> nat set \<Rightarrow> nat list \<times> nat set" where
  "growGroup subs overlappingGroup processed =
     (case scanPass subs overlappingGroup processed of
        (overlappingGroup', processed', foundNewOverlap) \<Rightarrow>
          if foundNewOverlap then growGroup subs overlappingGroup' processed'
          else (overlappingGroup', processed'))"
  by pat_completeness auto
termination
  by (relation "measure (\<lambda>(subs, g, P). card ({..<length subs} - P))")
     (auto simp: scanPass_decreases[OF sym])

declare growGroup.simps [simp del]

definition join :: "string \<Rightarrow> string list \<Rightarrow> string" where
  "join sep xs = (case xs of [] \<Rightarrow> [] | y # ys \<Rightarrow> foldl (\<lambda>acc s. acc @ sep @ s) y ys)"

definition mergedSubtitle :: "SubtitleWithMs list \<Rightarrow> Subtitle" where
  "mergedSubtitle overlappingGroup =
     \<lparr>index = index (hd overlappingGroup),
      start = start (hd overlappingGroup),
      end' = end' (last overlappingGroup),
      text' = join [CHR 0x0A] (map text' overlappingGroup)\<rparr>"

definition sortedGroup :: "SubtitleWithMs list \<Rightarrow> nat list \<Rightarrow> SubtitleWithMs list" where
  "sortedGroup subs overlappingGroup = sort_key startMs (map ((!) subs) overlappingGroup)"

definition mergeStep ::
  "SubtitleWithMs list \<Rightarrow> nat \<Rightarrow> Subtitle list \<times> nat set \<Rightarrow> Subtitle list \<times> nat set" where
  "mergeStep subs i st =
     (case st of (merged, processed) \<Rightarrow>
        if i \<in> processed then st
        else case growGroup subs [i] (insert i processed) of
          (overlappingGroup, processed') \<Rightarrow>
            (merged @ [mergedSubtitle (sortedGroup subs overlappingGroup)], processed'))"

definition mergeOverlappingSubtitles :: "Subtitle list \<Rightarrow> Subtitle list" where
  "mergeOverlappingSubtitles subtitles =
     (if length subtitles = 0 then subtitles
      else fst (fold (mergeStep (map withMs subtitles)) [0..<length subtitles] ([], {})))"


definition groupStep ::
  "SubtitleWithMs list \<Rightarrow> nat \<Rightarrow> nat list list \<times> nat set \<Rightarrow> nat list list \<times> nat set" where
  "groupStep subs i st =
     (case st of (groups, processed) \<Rightarrow>
        if i \<in> processed then st
        else case growGroup subs [i] (insert i processed) of
          (overlappingGroup, processed') \<Rightarrow> (groups @ [overlappingGroup], processed'))"

definition overlappingGroups :: "Subtitle list \<Rightarrow> nat list list" where
  "overlappingGroups subtitles =
     fst (fold (groupStep (map withMs subtitles)) [0..<length subtitles] ([], {}))"

definition overlapEdges :: "SubtitleWithMs list \<Rightarrow> (nat \<times> nat) set" where
  "overlapEdges subs =
     {(a, b). a < length subs \<and> b < length subs \<and> overlapsMs (subs ! a) (subs ! b)}"

text \<open>
  \<open>groupStep\<close> and \<open>overlappingGroups\<close> are the same loop keeping the groups instead of the
  merged cues; \<open>overlapEdges\<close> is the relation "the cues at two positions overlap", and
  \<open>groupsInv\<close> the invariant of the outer loop used in the proofs.
\<close>

definition groupsInv :: "SubtitleWithMs list \<Rightarrow> nat list list \<times> nat set \<Rightarrow> bool" where
  "groupsInv subs st =
     (case st of (groups, processed) \<Rightarrow>
        processed = set (concat groups) \<and> distinct (concat groups)
        \<and> processed \<subseteq> {..<length subs}
        \<and> (\<forall>g\<in>set groups. g \<noteq> [] \<and> (\<forall>x\<in>set g. (hd g, x) \<in> (overlapEdges subs)\<^sup>*))
        \<and> (\<forall>g\<in>set groups. \<forall>x\<in>set g. \<forall>y. (x, y) \<in> overlapEdges subs \<longrightarrow> y \<in> set g))"

section \<open>The vocabulary classifier\<close>

subsection \<open>Proper nouns\<close>

text \<open>
  \<^verbatim>\<open>isProperNoun\<close> names three intermediate values: \<^verbatim>\<open>cleanedWord\<close> (markup removed, then the
  leading and the trailing run of punctuation removed), the capitalisation test
  \<^verbatim>\<open>cleanedWord[0] !== cleanedWord[0].toUpperCase() || cleanedWord.toLowerCase() === cleanedWord\<close>
  (here the negation of \<open>isCapitalized\<close>), and \<^verbatim>\<open>firstWord\<close>, the match of
  \<^verbatim>\<open>/^([\p{L}\p{N}'-]+)/u\<close> on the trimmed sentence, empty when nothing matches.
\<close>

definition cleanedWord :: "string \<Rightarrow> string" where
  "cleanedWord word =
     (let noHtmlWord = stripHtml word
      in rev (dropWhile isPunct (rev (dropWhile isPunct noHtmlWord))))"

definition isCapitalized :: "string \<Rightarrow> bool" where
  "isCapitalized w = (\<not> (take 1 w \<noteq> toUpperCase (take 1 w) \<or> toLowerCase w = w))"

definition firstWord :: "string \<Rightarrow> string" where
  "firstWord sentence =
     (let sentenceTrimmed = trim sentence
      in takeWhile (\<lambda>c. isLetter c \<or> isDigit c \<or> c = CHR 0x27 \<or> c = CHR ''-'') sentenceTrimmed)"

definition isProperNoun :: "string \<Rightarrow> string \<Rightarrow> string set \<Rightarrow> bool" where
  "isProperNoun word sentence frequencyList =
     (if cleanedWord word = [] then False
      else if \<not> isCapitalized (cleanedWord word) then False
      else if cleanedWord word = firstWord sentence
           then (if toLowerCase (cleanedWord word) \<in> frequencyList then False else True)
           else True)"

subsection \<open>Known words and contractions\<close>

definition ENGLISH_CONTRACTIONS :: "(string \<times> string list) list" where
  "ENGLISH_CONTRACTIONS =
    [(''you're'', [''you'', ''are'']),
     (''you'll'', [''you'', ''will'']),
     (''you've'', [''you'', ''have'']),
     (''you'd'', [''you'', ''would'']),
     (''I'm'', [''I'', ''am'']),
     (''I'll'', [''I'', ''will'']),
     (''I've'', [''I'', ''have'']),
     (''I'd'', [''I'', ''would'']),
     (''we're'', [''we'', ''are'']),
     (''we'll'', [''we'', ''will'']),
     (''we've'', [''we'', ''have'']),
     (''we'd'', [''we'', ''would'']),
     (''they're'', [''they'', ''are'']),
     (''they'll'', [''they'', ''will'']),
     (''they've'', [''they'', ''have'']),
     (''they'd'', [''they'', ''would'']),
     (''he's'', [''he'', ''is'']),
     (''he'll'', [''he'', ''will'']),
     (''he'd'', [''he'', ''would'']),
     (''she's'', [''she'', ''is'']),
     (''she'll'', [''she'', ''will'']),
     (''she'd'', [''she'', ''would'']),
     (''it's'', [''it'', ''is'']),
     (''it'll'', [''it'', ''will'']),
     (''it'd'', [''it'', ''would'']),
     (''don't'', [''do'', ''not'']),
     (''doesn't'', [''does'', ''not'']),
     (''didn't'', [''did'', ''not'']),
     (''can't'', [''can'', ''not'']),
     (''couldn't'', [''could'', ''not'']),
     (''won't'', [''will'', ''not'']),
     (''wouldn't'', [''would'', ''not'']),
     (''shouldn't'', [''should'', ''not'']),
     (''mustn't'', [''must'', ''not'']),
     (''haven't'', [''have'', ''not'']),
     (''hasn't'', [''has'', ''not'']),
     (''hadn't'', [''had'', ''not'']),
     (''isn't'', [''is'', ''not'']),
     (''aren't'', [''are'', ''not'']),
     (''wasn't'', [''was'', ''not'']),
     (''weren't'', [''were'', ''not'']),
     (''that's'', [''that'', ''is'']),
     (''that'll'', [''that'', ''will'']),
     (''that'd'', [''that'', ''would'']),
     (''there's'', [''there'', ''is'']),
     (''there'll'', [''there'', ''will'']),
     (''there'd'', [''there'', ''would'']),
     (''here's'', [''here'', ''is'']),
     (''here'll'', [''here'', ''will'']),
     (''here'd'', [''here'', ''would'']),
     (''who's'', [''who'', ''is'']),
     (''who'll'', [''who'', ''will'']),
     (''who'd'', [''who'', ''would'']),
     (''what's'', [''what'', ''is'']),
     (''what'll'', [''what'', ''will'']),
     (''what'd'', [''what'', ''would'']),
     (''where's'', [''where'', ''is'']),
     (''where'll'', [''where'', ''will'']),
     (''where'd'', [''where'', ''would'']),
     (''when's'', [''when'', ''is'']),
     (''when'll'', [''when'', ''will'']),
     (''when'd'', [''when'', ''would'']),
     (''why's'', [''why'', ''is'']),
     (''why'll'', [''why'', ''will'']),
     (''why'd'', [''why'', ''would'']),
     (''how's'', [''how'', ''is'']),
     (''how'll'', [''how'', ''will'']),
     (''how'd'', [''how'', ''would'']),
     (''let's'', [''let'', ''us'']),
     (''ma'am'', [''madam'']),
     (''o'clock'', [''of'', ''the'', ''clock'']),
     (''y'all'', [''you'', ''all'']),
     (''gonna'', [''going'', ''to'']),
     (''wanna'', [''want'', ''to'']),
     (''gotta'', [''got'', ''to'']),
     (''lemme'', [''let'', ''me'']),
     (''gimme'', [''give'', ''me'']),
     (''outta'', [''out'', ''of'']),
     (''kinda'', [''kind'', ''of'']),
     (''sorta'', [''sort'', ''of'']),
     (''lotta'', [''lot'', ''of'']),
     (''lotsa'', [''lots'', ''of'']),
     (''cuppa'', [''cup'', ''of'']),
     (''ain't'', [''am'', ''not''])]"


text \<open>
  \<^verbatim>\<open>ENGLISH_CONTRACTIONS\<close> is an object literal, so \<^verbatim>\<open>ENGLISH_CONTRACTIONS[wordLower]\<close> finds
  the object's own entries and, for a key that is not an own entry, the members the
  object inherits from \<^verbatim>\<open>Object.prototype\<close>: a function or an object, truthy, and not an
  array. Calling \<^verbatim>\<open>.map\<close> or \<^verbatim>\<open>.every\<close> on such a member throws a \<^verbatim>\<open>TypeError\<close>.
\<close>

datatype error = TypeError

datatype jsValue = Words "string list" | InheritedMember | Undefined

definition objectPrototypeKeys :: "string list" where
  "objectPrototypeKeys =
     [''constructor'', ''__defineGetter__'', ''__defineSetter__'', ''hasOwnProperty'',
      ''__lookupGetter__'', ''__lookupSetter__'', ''isPrototypeOf'', ''propertyIsEnumerable'',
      ''toString'', ''valueOf'', ''__proto__'', ''toLocaleString'']"

definition lookupContraction :: "string \<Rightarrow> jsValue" where
  "lookupContraction key =
     (case map_of ENGLISH_CONTRACTIONS key of
        Some expansion \<Rightarrow> Words expansion
      | None \<Rightarrow> if key \<in> set objectPrototypeKeys then InheritedMember else Undefined)"

definition capitalizeFirst :: "string list \<Rightarrow> string list" where
  "capitalizeFirst expansion =
     (case expansion of [] \<Rightarrow> [] | w # ws \<Rightarrow> (toUpperCase (take 1 w) @ drop 1 w) # ws)"

definition getContractionExpansion :: "string \<Rightarrow> error + jsValue" where
  "getContractionExpansion word =
     (let wordLower = toLowerCase word in
      case lookupContraction wordLower of
        Words expansion \<Rightarrow>
          if take 1 word = toUpperCase (take 1 word)
          then Inr (Words (capitalizeFirst expansion))
          else Inr (Words expansion)
      | InheritedMember \<Rightarrow>
          if take 1 word = toUpperCase (take 1 word) then Inl TypeError
          else Inr InheritedMember
      | Undefined \<Rightarrow> Inr Undefined)"

definition isWordKnown :: "string \<Rightarrow> string set \<Rightarrow> string \<Rightarrow> error + bool" where
  "isWordKnown word knownWords language =
     (let wordLower = toLowerCase word in
      if wordLower \<in> knownWords then Inr True
      else if language = ''en''
      then (case getContractionExpansion word of
              Inl e \<Rightarrow> Inl e
            | Inr (Words expansion) \<Rightarrow>
                Inr (list_all (\<lambda>expandedWord. toLowerCase expandedWord \<in> knownWords) expansion)
            | Inr InheritedMember \<Rightarrow> Inl TypeError
            | Inr Undefined \<Rightarrow> Inr False)
      else Inr False)"


section \<open>The fusion engine\<close>

text \<open>
  Two collaborators of \<^verbatim>\<open>fuseSubtitles\<close> live outside the program and are parameters of the
  model. \<^verbatim>\<open>lemmatizeSingleLine\<close> runs a Python script; it is a function from the normalised
  line and the language to the list of lemmas (the empty list when the script fails).
  \<^verbatim>\<open>inlineTranslationService.processSubtitleWithInlineTranslation\<close> calls the DeepL HTTP API;
  it is a function that, from the state of the translation client (cache, clock) and its
  arguments, gives either a result object or a thrown exception (\<open>Inl\<close>), and the next
  state of the client. The target language only configures that service.

  Console output and the counter \<^verbatim>\<open>debugShown\<close>, which only limits console output, are left
  out. The branch for \<^verbatim>\<open>lemmatizedWords\<close> not being an array cannot be taken, since
  \<^verbatim>\<open>lemmatizeSingleLine\<close> returns an array on every path.
\<close>

record InlineTranslationResult =
  resultText :: string
  translationApplied :: bool
  resultError :: "string option"

type_synonym 'o inlineService =
  "'o \<Rightarrow> Subtitle \<Rightarrow> Subtitle list \<Rightarrow> string list \<Rightarrow> string set
     \<Rightarrow> (unit + InlineTranslationResult) \<times> 'o"

record 'o FusionState =
  finalSubtitles :: "Subtitle list"
  processedTargetIndices :: "string set"
  replacedCount :: nat
  replacedWithOneUnknown :: nat
  inlineTranslationCount :: nat
  errorCount :: nat
  translatedWords :: "(string \<times> nat) list"
  deeplState :: 'o

record FusionResult =
  hybrid :: "Subtitle list"
  replacedCountR :: nat
  replacedWithOneUnknownR :: nat
  inlineTranslationCountR :: nat
  errorCountR :: nat
  translatedWordsR :: "(string \<times> nat) list"

text \<open>
  The callback of \<^verbatim>\<open>lemmatizedWords.filter\<close>, by position \<open>j\<close>. A \<^verbatim>\<open>TypeError\<close> thrown by
  \<^verbatim>\<open>isWordKnown\<close> leaves the callback, the filter and \<^verbatim>\<open>fuseSubtitles\<close>: no handler encloses
  the word analysis.
\<close>

fun unknownWordsFrom ::
  "string set \<Rightarrow> string \<Rightarrow> string \<Rightarrow> string list \<Rightarrow> nat \<Rightarrow> string list \<Rightarrow> error + string list" where
  "unknownWordsFrom knownWords language sentence originalWords j [] = Inr []"
| "unknownWordsFrom knownWords language sentence originalWords j (word # rest) =
     (let origWord = (if j < length originalWords \<and> originalWords ! j \<noteq> []
                      then originalWords ! j else word)
      in case isWordKnown word knownWords language of
           Inl e \<Rightarrow> Inl e
         | Inr isKnown \<Rightarrow>
             (let isProper = isProperNoun origWord sentence knownWords;
                  isNumber = isNumberWord word
              in case unknownWordsFrom knownWords language sentence originalWords (Suc j) rest of
                   Inl e \<Rightarrow> Inl e
                 | Inr unknown \<Rightarrow>
                     Inr (if \<not> isKnown \<and> \<not> isProper \<and> \<not> isNumber
                          then word # unknown else unknown)))"

definition unknownWordsOf ::
  "(string \<Rightarrow> string \<Rightarrow> string list) \<Rightarrow> string set \<Rightarrow> string \<Rightarrow> Subtitle \<Rightarrow> error + string list" where
  "unknownWordsOf lemmatizeSingleLine knownWords language currentTargetSub =
     (let currentLine = join '' '' (normalizeWords (stripHtml (text' currentTargetSub)));
          lemmatizedWords = lemmatizeSingleLine currentLine language;
          originalWords = splitWs (stripHtml (text' currentTargetSub))
      in unknownWordsFrom knownWords language (text' currentTargetSub) originalWords 0
           lemmatizedWords)"

definition intersectingNativeSubs :: "Subtitle list \<Rightarrow> Subtitle \<Rightarrow> Subtitle list" where
  "intersectingNativeSubs nativeSubs currentTargetSub =
     filter (\<lambda>nativeSub. hasIntersection (start currentTargetSub) (end' currentTargetSub)
                           (start nativeSub) (end' nativeSub)) nativeSubs"

definition overlappingTargetSubs ::
  "Subtitle list \<Rightarrow> string set \<Rightarrow> string \<Rightarrow> string \<Rightarrow> Subtitle list" where
  "overlappingTargetSubs targetSubs processed combinedStart combinedEnd =
     filter (\<lambda>sub. index sub \<notin> processed
                    \<and> hasIntersection combinedStart combinedEnd (start sub) (end' sub)) targetSubs"

definition combinedNativeText :: "Subtitle list \<Rightarrow> string" where
  "combinedNativeText intersecting = join [CHR 0x0A] (map text' intersecting)"

definition pushSub :: "Subtitle \<Rightarrow> 'o FusionState \<Rightarrow> 'o FusionState" where
  "pushSub s st = st\<lparr>finalSubtitles := finalSubtitles st @ [s]\<rparr>"

definition markProcessed :: "string \<Rightarrow> 'o FusionState \<Rightarrow> 'o FusionState" where
  "markProcessed i st = st\<lparr>processedTargetIndices := insert i (processedTargetIndices st)\<rparr>"

definition countTranslated :: "string \<Rightarrow> (string \<times> nat) list \<Rightarrow> (string \<times> nat) list" where
  "countTranslated w m =
     (case map_of m w of
        None \<Rightarrow> m @ [(w, 1)]
      | Some n \<Rightarrow> map (\<lambda>(k, v). if k = w then (k, n + 1) else (k, v)) m)"

text \<open>The path for several unknown words (and for one, when no service is present).\<close>

definition replaceMulti ::
  "Subtitle list \<Rightarrow> Subtitle list \<Rightarrow> Subtitle \<Rightarrow> 'o FusionState \<Rightarrow> 'o FusionState" where
  "replaceMulti targetSubs nativeSubs currentTargetSub st =
     (let intersecting = intersectingNativeSubs nativeSubs currentTargetSub in
      if length intersecting = 0
      then markProcessed (index currentTargetSub) (pushSub currentTargetSub st)
      else
        let overlapping = overlappingTargetSubs targetSubs (processedTargetIndices st)
                            (start (hd intersecting)) (end' (last intersecting)) in
        if length overlapping = 0
        then markProcessed (index currentTargetSub) (pushSub currentTargetSub st)
        else
          let replacementSub =
                \<lparr>index = [], start = start (hd overlapping), end' = end' (last overlapping),
                 text' = combinedNativeText intersecting\<rparr>
          in (pushSub replacementSub st)
               \<lparr>replacedCount := replacedCount st + length overlapping,
                processedTargetIndices :=
                  processedTargetIndices st \<union> set (map index overlapping)\<rparr>)"

text \<open>
  The path for a single unknown word with the service present: the \<^verbatim>\<open>try\<close> block with its
  three outcomes, the \<^verbatim>\<open>catch\<close> block, and the statement after both that marks the cue.
\<close>

definition translateInline ::
  "'o inlineService \<Rightarrow> Subtitle list \<Rightarrow> Subtitle list \<Rightarrow> string set \<Rightarrow> string list
     \<Rightarrow> Subtitle \<Rightarrow> 'o FusionState \<Rightarrow> 'o FusionState" where
  "translateInline service targetSubs nativeSubs knownWords unknownWords currentTargetSub st =
     (case service (deeplState st) currentTargetSub targetSubs unknownWords knownWords of
        (outcome, o') \<Rightarrow>
          markProcessed (index currentTargetSub)
            (case outcome of
               Inl thrown \<Rightarrow>
                 pushSub currentTargetSub (st\<lparr>errorCount := errorCount st + 1, deeplState := o'\<rparr>)
             | Inr result \<Rightarrow>
                 if translationApplied result
                 then pushSub (currentTargetSub\<lparr>text' := resultText result\<rparr>)
                        (st\<lparr>inlineTranslationCount := inlineTranslationCount st + 1,
                            translatedWords := countTranslated (hd unknownWords) (translatedWords st),
                            deeplState := o'\<rparr>)
                 else if resultError result \<noteq> None \<and> resultError result \<noteq> Some []
                 then
                   (let st1 = st\<lparr>errorCount := errorCount st + 1, deeplState := o'\<rparr>;
                        intersecting = intersectingNativeSubs nativeSubs currentTargetSub
                    in if length intersecting > 0
                       then (pushSub \<lparr>index = [], start = start currentTargetSub,
                                      end' = end' currentTargetSub,
                                      text' = combinedNativeText intersecting\<rparr> st1)
                              \<lparr>replacedCount := replacedCount st1 + 1,
                               replacedWithOneUnknown := replacedWithOneUnknown st1 + 1\<rparr>
                       else pushSub currentTargetSub st1)
                 else pushSub currentTargetSub (st\<lparr>deeplState := o'\<rparr>)))"

text \<open>One iteration of the loop over \<^verbatim>\<open>targetSubs\<close>, and the loop.\<close>

definition fuseStep ::
  "(string \<Rightarrow> string \<Rightarrow> string list) \<Rightarrow> 'o inlineService option \<Rightarrow> Subtitle list \<Rightarrow> Subtitle list
     \<Rightarrow> string set \<Rightarrow> string \<Rightarrow> Subtitle \<Rightarrow> 'o FusionState \<Rightarrow> error + 'o FusionState" where
  "fuseStep lemmatizeSingleLine inlineTranslationService targetSubs nativeSubs knownWords language
      currentTargetSub st =
     (if index currentTargetSub \<in> processedTargetIndices st then Inr st
      else case unknownWordsOf lemmatizeSingleLine knownWords language currentTargetSub of
        Inl e \<Rightarrow> Inl e
      | Inr unknownWords \<Rightarrow>
          if length unknownWords = 0
          then Inr (markProcessed (index currentTargetSub) (pushSub currentTargetSub st))
          else case (if length unknownWords = 1 then inlineTranslationService else None) of
                 Some service \<Rightarrow>
                   Inr (translateInline service targetSubs nativeSubs knownWords unknownWords
                          currentTargetSub st)
               | None \<Rightarrow> Inr (replaceMulti targetSubs nativeSubs currentTargetSub st))"

fun fuseLoop ::
  "(string \<Rightarrow> string \<Rightarrow> string list) \<Rightarrow> 'o inlineService option \<Rightarrow> Subtitle list \<Rightarrow> Subtitle list
     \<Rightarrow> string set \<Rightarrow> string \<Rightarrow> Subtitle list \<Rightarrow> 'o FusionState \<Rightarrow> error + 'o FusionState" where
  "fuseLoop lem svc targetSubs nativeSubs knownWords language [] st = Inr st"
| "fuseLoop lem svc targetSubs nativeSubs knownWords language (currentTargetSub # rest) st =
     (case fuseStep lem svc targetSubs nativeSubs knownWords language currentTargetSub st of
        Inl e \<Rightarrow> Inl e
      | Inr st' \<Rightarrow> fuseLoop lem svc targetSubs nativeSubs knownWords language rest st')"

text \<open>\<^verbatim>\<open>String(i + 1)\<close> and the final re-indexing.\<close>

function showNat :: "nat \<Rightarrow> string" where
  "showNat n = (if n < 10 then [''0123456789'' ! n]
                else showNat (n div 10) @ [''0123456789'' ! (n mod 10)])"
  by pat_completeness auto
termination
  by (relation "measure id") auto

declare showNat.simps [simp del]

definition reIndex :: "Subtitle list \<Rightarrow> Subtitle list" where
  "reIndex subs = map (\<lambda>(i, s). s\<lparr>index := showNat (i + 1)\<rparr>) (enumerate 0 subs)"

definition initialState :: "'o \<Rightarrow> 'o FusionState" where
  "initialState o0 =
     \<lparr>finalSubtitles = [], processedTargetIndices = {}, replacedCount = 0,
      replacedWithOneUnknown = 0, inlineTranslationCount = 0, errorCount = 0,
      translatedWords = [], deeplState = o0\<rparr>"

definition fuseSubtitles ::
  "(string \<Rightarrow> string \<Rightarrow> string list) \<Rightarrow> 'o \<Rightarrow> Subtitle list \<Rightarrow> Subtitle list \<Rightarrow> string set
     \<Rightarrow> string \<Rightarrow> bool \<Rightarrow> 'o inlineService option \<Rightarrow> error + FusionResult" where
  "fuseSubtitles lemmatizeSingleLine deepl0 targetSubs nativeSubs knownWords language
      enableInlineTranslation deeplAPI =
     (let inlineTranslationService = (if enableInlineTranslation then deeplAPI else None)
      in case fuseLoop lemmatizeSingleLine inlineTranslationService targetSubs nativeSubs
                knownWords language targetSubs (initialState deepl0) of
           Inl e \<Rightarrow> Inl e
         | Inr st \<Rightarrow>
             Inr \<lparr>hybrid = reIndex (finalSubtitles st),
                  replacedCountR = replacedCount st,
                  replacedWithOneUnknownR = replacedWithOneUnknown st,
                  inlineTranslationCountR = inlineTranslationCount st,
                  errorCountR = errorCount st,
                  translatedWordsR = translatedWords st\<rparr>)"

section \<open>Sample inputs\<close>

text \<open>Tracks for the merger: cues sharing one millisecond, a nested cue, a reversed cue.\<close>

definition briefOverlapTrack :: "Subtitle list" where
  "briefOverlapTrack =
     [\<lparr>index = ''1'', start = ''00:00:00,000'', end' = ''00:00:01,000'', text' = ''A''\<rparr>,
      \<lparr>index = ''2'', start = ''00:00:00,999'', end' = ''00:00:02,000'', text' = ''B''\<rparr>]"

definition nestedTrack :: "Subtitle list" where
  "nestedTrack =
     [\<lparr>index = ''1'', start = ''00:00:00,000'', end' = ''00:00:10,000'', text' = ''A''\<rparr>,
      \<lparr>index = ''2'', start = ''00:00:01,000'', end' = ''00:00:02,000'', text' = ''B''\<rparr>]"

definition reversedCueTrack :: "Subtitle list" where
  "reversedCueTrack =
     [\<lparr>index = ''1'', start = ''00:00:00,000'', end' = ''00:00:10,000'', text' = ''A''\<rparr>,
      \<lparr>index = ''2'', start = ''00:00:08,000'', end' = ''00:00:20,000'', text' = ''B''\<rparr>,
      \<lparr>index = ''3'', start = ''00:00:12,000'', end' = ''00:00:05,000'', text' = ''C''\<rparr>]"

text \<open>
  A lemmatizer for the examples: every word of the normalised line is its own lemma.
\<close>

definition wordLemmatizer :: "string \<Rightarrow> string \<Rightarrow> string list" where
  "wordLemmatizer line lang = filter (\<lambda>w. w \<noteq> []) (splitWs (trim line))"




definition sameIndexTargets :: "Subtitle list" where
  "sameIndexTargets =
     [\<lparr>index = ''7'', start = ''00:00:01,200'', end' = ''00:00:02,000'', text' = ''ok''\<rparr>,
      \<lparr>index = ''7'', start = ''00:00:02,100'', end' = ''00:00:03,800'', text' = ''ok ok''\<rparr>]"

definition constructorTargets :: "Subtitle list" where
  "constructorTargets =
     [\<lparr>index = ''1'', start = ''00:00:01,000'', end' = ''00:00:02,000'',
       text' = ''The constructor''\<rparr>]"

text \<open>
  A target track with a nested cue under one long native cue, for the span of a
  replacement.
\<close>

definition nestedTargets :: "Subtitle list" where
  "nestedTargets =
     [\<lparr>index = ''1'', start = ''00:00:01,000'', end' = ''00:00:10,000'', text' = ''alpha beta''\<rparr>,
      \<lparr>index = ''2'', start = ''00:00:02,000'', end' = ''00:00:04,000'', text' = ''ok''\<rparr>]"

definition nestedNatives :: "Subtitle list" where
  "nestedNatives =
     [\<lparr>index = ''1'', start = ''00:00:00,000'', end' = ''00:00:11,000'', text' = ''Salut''\<rparr>]"

section \<open>Evaluation of timestamps\<close>

lemma srtTimeToMs_samples:
  "srtTimeToMs ''00:00:00,000'' = 0"
  "srtTimeToMs ''00:00:00,999'' = 999"
  "srtTimeToMs ''00:00:00,400'' = 400"
  "srtTimeToMs ''00:00:01,000'' = 1000"
  "srtTimeToMs ''00:00:01,200'' = 1200"
  "srtTimeToMs ''00:00:01,600'' = 1600"
  "srtTimeToMs ''00:00:02,000'' = 2000"
  "srtTimeToMs ''00:00:02,100'' = 2100"
  "srtTimeToMs ''00:00:03,800'' = 3800"
  "srtTimeToMs ''00:00:04,000'' = 4000"
  "srtTimeToMs ''00:00:10,000'' = 10000"
  by code_simp+

section \<open>The overlap predicate\<close>

text \<open>
  Claim C5. After converting its four timestamps to milliseconds, \<^verbatim>\<open>hasIntersection\<close> is true
  exactly when \<open>min(aEnd, bEnd) - max(aStart, bStart)\<close> is strictly greater than 500. The
  intervals (0, 1000) and (999, 2000) overlap by 1 ms and give false; (0, 1000) and
  (400, 1600) overlap by 600 ms and give true.
\<close>

theorem hasIntersection_threshold:
  "hasIntersection aStart aEnd bStart bEnd
     = (min (srtTimeToMs aEnd) (srtTimeToMs bEnd)
          - max (srtTimeToMs aStart) (srtTimeToMs bStart) > 500)
   \<and> hasIntersection ''00:00:00,000'' ''00:00:01,000'' ''00:00:00,999'' ''00:00:02,000'' = False
   \<and> min (srtTimeToMs ''00:00:01,000'') (srtTimeToMs ''00:00:02,000'')
        - max (srtTimeToMs ''00:00:00,000'') (srtTimeToMs ''00:00:00,999'') = 1
   \<and> hasIntersection ''00:00:00,000'' ''00:00:01,000'' ''00:00:00,400'' ''00:00:01,600'' = True
   \<and> min (srtTimeToMs ''00:00:01,000'') (srtTimeToMs ''00:00:01,600'')
        - max (srtTimeToMs ''00:00:00,000'') (srtTimeToMs ''00:00:00,400'') = 600"
  by (simp add: hasIntersection_def Let_def srtTimeToMs_samples)

section \<open>The merger builds the components of the overlap relation\<close>

lemma overlapsMs_sym: "overlapsMs a b = overlapsMs b a"
  by (auto simp: overlapsMs_def)

lemma overlapEdges_sym: "(a, b) \<in> overlapEdges subs \<Longrightarrow> (b, a) \<in> overlapEdges subs"
  by (auto simp: overlapEdges_def overlapsMs_sym)

lemma overlapEdges_rtrancl_sym:
  "(a, b) \<in> (overlapEdges subs)\<^sup>* \<Longrightarrow> (b, a) \<in> (overlapEdges subs)\<^sup>*"
  by (induction rule: rtrancl_induct)
     (auto intro: converse_rtrancl_into_rtrancl overlapEdges_sym)

lemma hasOverlap_iff:
  "hasOverlap subs g j = (\<exists>x\<in>set g. overlapsMs (subs ! x) (subs ! j))"
  by (simp add: hasOverlap_def list_ex_iff)

lemma scan_fold_quiet:
  "fold (scanStep subs) js (g, P, False) = (g', P', False) \<Longrightarrow>
     g' = g \<and> P' = P \<and> (\<forall>j\<in>set js. j \<in> P \<or> \<not> hasOverlap subs g j)"
proof (induction js)
  case Nil
  then show ?case by simp
next
  case (Cons j js)
  show ?case
  proof (cases "j \<notin> P \<and> hasOverlap subs g j")
    case True
    then have "fold (scanStep subs) js (g @ [j], insert j P, True) = (g', P', False)"
      using Cons.prems by (simp add: scanStep_simps)
    from scan_fold_shape[OF this] show ?thesis by auto
  next
    case False
    then have "fold (scanStep subs) js (g, P, False) = (g', P', False)"
      using Cons.prems by (auto simp: scanStep_simps split: if_splits)
    from Cons.IH[OF this] False show ?thesis by auto
  qed
qed

lemma scan_fold_reach:
  "fold (scanStep subs) js (g, P, f) = (g', P', f') \<Longrightarrow>
   set js \<subseteq> {..<length subs} \<Longrightarrow> set g \<subseteq> {..<length subs} \<Longrightarrow>
   \<forall>x\<in>set g. (r, x) \<in> (overlapEdges subs)\<^sup>* \<Longrightarrow>
   \<forall>x\<in>set g'. (r, x) \<in> (overlapEdges subs)\<^sup>*"
proof (induction js arbitrary: g P f)
  case Nil
  then show ?case by simp
next
  case (Cons j js)
  show ?case
  proof (cases "j \<notin> P \<and> hasOverlap subs g j")
    case True
    then have f: "fold (scanStep subs) js (g @ [j], insert j P, True) = (g', P', f')"
      using Cons.prems(1) by (simp add: scanStep_simps)
    from True obtain y where y: "y \<in> set g" "overlapsMs (subs ! y) (subs ! j)"
      by (auto simp: hasOverlap_iff)
    have "(y, j) \<in> overlapEdges subs"
      using y Cons.prems(2,3) by (auto simp: overlapEdges_def)
    moreover have "(r, y) \<in> (overlapEdges subs)\<^sup>*" using y Cons.prems(4) by blast
    ultimately have "(r, j) \<in> (overlapEdges subs)\<^sup>*" by (rule rtrancl_into_rtrancl[rotated])
    then have "\<forall>x\<in>set (g @ [j]). (r, x) \<in> (overlapEdges subs)\<^sup>*"
      using Cons.prems(4) by auto
    moreover have "set (g @ [j]) \<subseteq> {..<length subs}" using Cons.prems(2,3) by auto
    moreover have "set js \<subseteq> {..<length subs}" using Cons.prems(2) by auto
    ultimately show ?thesis using Cons.IH[OF f] by blast
  next
    case False
    then have f: "fold (scanStep subs) js (g, P, f) = (g', P', f')"
      using Cons.prems(1) by (auto simp: scanStep_simps split: if_splits)
    have "set js \<subseteq> {..<length subs}" using Cons.prems(2) by auto
    then show ?thesis using Cons.IH[OF f] Cons.prems(3,4) by blast
  qed
qed

lemma growGroup_props:
  "growGroup subs g P = (g', P') \<Longrightarrow>
     (\<exists>new. g' = g @ new \<and> P' = P \<union> set new \<and> set new \<subseteq> {..<length subs} - P \<and> distinct new)
     \<and> (\<forall>j<length subs. j \<in> P' \<or> \<not> hasOverlap subs g' j)"
proof (induction subs g P arbitrary: g' P' rule: growGroup.induct)
  case (1 subs g P)
  obtain g1 P1 f1 where sp: "scanPass subs g P = (g1, P1, f1)"
    by (cases "scanPass subs g P") auto
  from scanPass_shape[OF sp] obtain new1 where
    n1: "g1 = g @ new1" "P1 = P \<union> set new1" "set new1 \<subseteq> {..<length subs} - P"
        "distinct new1" "f1 = (new1 \<noteq> [])" by blast
  show ?case
  proof (cases f1)
    case True
    then have gg: "growGroup subs g1 P1 = (g', P')"
      using "1.prems" sp by (subst (asm) growGroup.simps) simp
    from "1.IH"[OF sp[symmetric] refl True gg] obtain new2 where
      n2: "g' = g1 @ new2" "P' = P1 \<union> set new2" "set new2 \<subseteq> {..<length subs} - P1"
          "distinct new2"
      and cl: "\<forall>j<length subs. j \<in> P' \<or> \<not> hasOverlap subs g' j" by blast
    have "g' = g @ (new1 @ new2)" "P' = P \<union> set (new1 @ new2)"
         "set (new1 @ new2) \<subseteq> {..<length subs} - P" "distinct (new1 @ new2)"
      using n1 n2 by auto
    then show ?thesis using cl by blast
  next
    case False
    then have eq: "g' = g1" "P' = P1"
      using "1.prems" sp by (subst (asm) growGroup.simps, simp)+
    from sp False have "fold (scanStep subs) [0..<length subs] (g, P, False) = (g1, P1, False)"
      by (simp add: scanPass_def)
    from scan_fold_quiet[OF this] have
      q: "g1 = g" "P1 = P" "\<forall>j\<in>set [0..<length subs]. j \<in> P \<or> \<not> hasOverlap subs g j"
      by auto
    have "\<forall>j<length subs. j \<in> P' \<or> \<not> hasOverlap subs g' j"
      using q eq by auto
    moreover have "g' = g @ []" "P' = P \<union> set []" using q eq by auto
    ultimately show ?thesis by (intro conjI exI[of _ "[]"]) auto
  qed
qed

lemma growGroup_reach:
  "growGroup subs g P = (g', P') \<Longrightarrow> set g \<subseteq> {..<length subs} \<Longrightarrow>
   \<forall>x\<in>set g. (r, x) \<in> (overlapEdges subs)\<^sup>* \<Longrightarrow>
   \<forall>x\<in>set g'. (r, x) \<in> (overlapEdges subs)\<^sup>*"
proof (induction subs g P arbitrary: g' P' rule: growGroup.induct)
  case (1 subs g P)
  obtain g1 P1 f1 where sp: "scanPass subs g P = (g1, P1, f1)"
    by (cases "scanPass subs g P") auto
  from scanPass_shape[OF sp] obtain new1 where
    n1: "g1 = g @ new1" "set new1 \<subseteq> {..<length subs} - P" by blast
  have "set [0..<length subs] \<subseteq> {..<length subs}" by auto
  from scan_fold_reach[OF sp[unfolded scanPass_def] this "1.prems"(2,3)]
  have r1: "\<forall>x\<in>set g1. (r, x) \<in> (overlapEdges subs)\<^sup>*" .
  have s1: "set g1 \<subseteq> {..<length subs}" using n1 "1.prems"(2) by auto
  show ?case
  proof (cases f1)
    case True
    then have gg: "growGroup subs g1 P1 = (g', P')"
      using "1.prems"(1) sp by (subst (asm) growGroup.simps) simp
    from "1.IH"[OF sp[symmetric] refl True gg s1 r1] show ?thesis .
  next
    case False
    then have "g' = g1"
      using "1.prems"(1) sp by (subst (asm) growGroup.simps) simp
    then show ?thesis using r1 by simp
  qed
qed


lemma groupStep_simps:
  "groupStep subs i (G, P) =
     (if i \<in> P then (G, P)
      else (G @ [fst (growGroup subs [i] (insert i P))], snd (growGroup subs [i] (insert i P))))"
  by (simp add: groupStep_def split: prod.splits)

lemma groupStep_inv:
  assumes i: "i < length subs" and inv: "groupsInv subs (G, P)"
  shows "groupsInv subs (groupStep subs i (G, P)) \<and> i \<in> snd (groupStep subs i (G, P))
         \<and> P \<subseteq> snd (groupStep subs i (G, P))"
proof (cases "i \<in> P")
  case True
  then show ?thesis using inv by (simp add: groupStep_simps)
next
  case False
  obtain g P' where gg: "growGroup subs [i] (insert i P) = (g, P')"
    by (cases "growGroup subs [i] (insert i P)") auto
  from growGroup_props[OF gg] obtain new where
    n: "g = [i] @ new" "P' = insert i P \<union> set new"
       "set new \<subseteq> {..<length subs} - insert i P" "distinct new"
    and cl: "\<forall>j<length subs. j \<in> P' \<or> \<not> hasOverlap subs g j" by blast
  have st: "groupStep subs i (G, P) = (G @ [g], P')"
    using False gg by (simp add: groupStep_simps)
  have P: "P = set (concat G)" "distinct (concat G)" "P \<subseteq> {..<length subs}"
    and conn: "\<forall>h\<in>set G. h \<noteq> [] \<and> (\<forall>x\<in>set h. (hd h, x) \<in> (overlapEdges subs)\<^sup>*)"
    and closed: "\<forall>h\<in>set G. \<forall>x\<in>set h. \<forall>y. (x, y) \<in> overlapEdges subs \<longrightarrow> y \<in> set h"
    using inv by (auto simp: groupsInv_def)
  have gset: "set g = insert i (set new)" "set g \<inter> P = {}" "distinct g"
    using n False by auto
  have "set [i] \<subseteq> {..<length subs}" "\<forall>x\<in>set [i]. (i, x) \<in> (overlapEdges subs)\<^sup>*"
    using i by auto
  from growGroup_reach[OF gg this]
  have reach: "\<forall>x\<in>set g. (hd g, x) \<in> (overlapEdges subs)\<^sup>*" using n(1) by simp
  have gclosed: "y \<in> set g" if x: "x \<in> set g" and e: "(x, y) \<in> overlapEdges subs" for x y
  proof -
    have y: "y < length subs" and ov: "overlapsMs (subs ! x) (subs ! y)"
      using e by (auto simp: overlapEdges_def)
    have "hasOverlap subs g y" using x ov by (auto simp: hasOverlap_iff)
    then have "y \<in> P'" using cl y by blast
    moreover have "y \<notin> P"
    proof
      assume "y \<in> P"
      then obtain h where h: "h \<in> set G" "y \<in> set h" using P(1) by auto
      have "(y, x) \<in> overlapEdges subs" using e by (rule overlapEdges_sym)
      then have "x \<in> set h" using closed h by blast
      then have "x \<in> P" using h P(1) by auto
      then show False using x gset(2) by auto
    qed
    ultimately show ?thesis using n gset by auto
  qed
  have c1: "P' = set (concat (G @ [g]))" using P(1) n by auto
  have c2: "distinct (concat (G @ [g]))" using P(1,2) gset by auto
  have c3: "P' \<subseteq> {..<length subs}" using P(3) n i by auto
  have c4: "\<forall>h\<in>set (G @ [g]). h \<noteq> [] \<and> (\<forall>x\<in>set h. (hd h, x) \<in> (overlapEdges subs)\<^sup>*)"
    using conn reach n(1) by auto
  have c5: "\<forall>h\<in>set (G @ [g]). \<forall>x\<in>set h. \<forall>y. (x, y) \<in> overlapEdges subs \<longrightarrow> y \<in> set h"
    using closed gclosed by auto
  have "groupsInv subs (G @ [g], P')"
    unfolding groupsInv_def using c1 c2 c3 c4 c5 by blast
  then show ?thesis using st n by auto
qed

lemma fold_groupStep_inv:
  "set js \<subseteq> {..<length subs} \<Longrightarrow> groupsInv subs st \<Longrightarrow>
     groupsInv subs (fold (groupStep subs) js st)
     \<and> set js \<union> snd st \<subseteq> snd (fold (groupStep subs) js st)"
proof (induction js arbitrary: st)
  case Nil
  then show ?case by simp
next
  case (Cons j js)
  obtain G P where st: "st = (G, P)" by (cases st) auto
  have j: "j < length subs" using Cons.prems(1) by simp
  from groupStep_inv[OF j Cons.prems(2)[unfolded st]]
  have 1: "groupsInv subs (groupStep subs j st)" "j \<in> snd (groupStep subs j st)"
    "snd st \<subseteq> snd (groupStep subs j st)" by (auto simp: st)
  have "set js \<subseteq> {..<length subs}" using Cons.prems(1) by simp
  from Cons.IH[OF this 1(1)] 1(2,3) show ?case by auto
qed

lemma overlappingGroups_inv:
  "groupsInv (map withMs subtitles) (overlappingGroups subtitles, {..<length subtitles})"
proof -
  let ?subs = "map withMs subtitles"
  let ?r = "fold (groupStep ?subs) [0..<length subtitles] ([], {})"
  have "set [0..<length subtitles] \<subseteq> {..<length ?subs}" by auto
  moreover have "groupsInv ?subs ([], {})" by (simp add: groupsInv_def)
  ultimately have "groupsInv ?subs ?r
     \<and> set [0..<length subtitles] \<union> snd (([], {}) :: nat list list \<times> nat set) \<subseteq> snd ?r"
    by (rule fold_groupStep_inv)
  then have inv: "groupsInv ?subs ?r"
    and sub: "set [0..<length subtitles] \<subseteq> snd ?r" by auto
  have "snd ?r \<subseteq> {..<length subtitles}"
    using inv by (cases ?r) (auto simp: groupsInv_def)
  then have "snd ?r = {..<length subtitles}" using sub by auto
  then have "?r = (overlappingGroups subtitles, {..<length subtitles})"
    by (simp add: overlappingGroups_def prod_eq_iff)
  then show ?thesis using inv by simp
qed

lemma overlappingGroups_partition:
  "distinct (concat (overlappingGroups subtitles))"
  "set (concat (overlappingGroups subtitles)) = {..<length subtitles}"
  using overlappingGroups_inv[of subtitles] by (auto simp: groupsInv_def)

lemma overlappingGroups_nonempty:
  "g \<in> set (overlappingGroups subtitles) \<Longrightarrow> g \<noteq> []"
  using overlappingGroups_inv[of subtitles] by (auto simp: groupsInv_def)

lemma overlappingGroups_closed:
  assumes "g \<in> set (overlappingGroups subtitles)" "x \<in> set g"
    and "(x, y) \<in> (overlapEdges (map withMs subtitles))\<^sup>*"
  shows "y \<in> set g"
  using assms(3,1,2)
proof (induction rule: rtrancl_induct)
  case base
  then show ?case by simp
next
  case (step y z)
  then show ?case
    using overlappingGroups_inv[of subtitles] by (auto simp: groupsInv_def)
qed

lemma overlappingGroups_connected:
  assumes "g \<in> set (overlappingGroups subtitles)" "x \<in> set g" "y \<in> set g"
  shows "(x, y) \<in> (overlapEdges (map withMs subtitles))\<^sup>*"
proof -
  have "(hd g, x) \<in> (overlapEdges (map withMs subtitles))\<^sup>*"
       "(hd g, y) \<in> (overlapEdges (map withMs subtitles))\<^sup>*"
    using assms overlappingGroups_inv[of subtitles] by (auto simp: groupsInv_def)
  then show ?thesis
    using overlapEdges_rtrancl_sym rtrancl_trans by fast
qed

lemma mergeStep_simps:
  "mergeStep subs i (M, P) =
     (if i \<in> P then (M, P)
      else (M @ [mergedSubtitle (sortedGroup subs (fst (growGroup subs [i] (insert i P))))],
            snd (growGroup subs [i] (insert i P))))"
  by (simp add: mergeStep_def split: prod.splits)

lemma fold_mergeStep_groupStep:
  "fold (mergeStep subs) js (map (\<lambda>g. mergedSubtitle (sortedGroup subs g)) G, P)
     = (map (\<lambda>g. mergedSubtitle (sortedGroup subs g)) (fst (fold (groupStep subs) js (G, P))),
        snd (fold (groupStep subs) js (G, P)))"
proof (induction js arbitrary: G P)
  case Nil
  then show ?case by simp
next
  case (Cons j js)
  show ?case
  proof (cases "j \<in> P")
    case True
    then show ?thesis using Cons.IH[of G P] by (simp add: mergeStep_simps groupStep_simps)
  next
    case False
    obtain g P' where gg: "growGroup subs [j] (insert j P) = (g, P')"
      by (cases "growGroup subs [j] (insert j P)") auto
    show ?thesis using False gg Cons.IH[of "G @ [g]" P']
      by (simp add: mergeStep_simps groupStep_simps)
  qed
qed

lemma mergeOverlappingSubtitles_groups:
  "mergeOverlappingSubtitles subtitles
     = map (\<lambda>g. mergedSubtitle (sortedGroup (map withMs subtitles) g))
         (overlappingGroups subtitles)"
proof (cases "length subtitles = 0")
  case True
  then show ?thesis by (simp add: mergeOverlappingSubtitles_def overlappingGroups_def)
next
  case False
  then show ?thesis
    using fold_mergeStep_groupStep[of "map withMs subtitles" "[0..<length subtitles]" "[]" "{}"]
    by (simp add: mergeOverlappingSubtitles_def overlappingGroups_def)
qed


lemma withMs_fields [simp]:
  "index (withMs c) = index c" "start (withMs c) = start c"
  "end' (withMs c) = end' c" "text' (withMs c) = text' c"
  "startMs (withMs c) = srtTimeToMs (start c)" "endMs (withMs c) = srtTimeToMs (end' c)"
  by (simp_all add: withMs_def)

lemma sortedGroup_set:
  "set (sortedGroup subs g) = (\<lambda>x. subs ! x) ` set g"
  by (simp add: sortedGroup_def)

lemma sortedGroup_hd:
  assumes "g \<noteq> []"
  shows "\<exists>a\<in>set g. hd (sortedGroup subs g) = subs ! a
           \<and> (\<forall>x\<in>set g. startMs (subs ! a) \<le> startMs (subs ! x))"
proof -
  let ?s = "sortedGroup subs g"
  have "length ?s = length g" by (simp add: sortedGroup_def)
  then have ne: "?s \<noteq> []" using assms by auto
  have srt: "sorted (map startMs ?s)" by (simp add: sortedGroup_def)
  have "hd ?s \<in> set ?s" using ne by simp
  then obtain a where a: "a \<in> set g" "hd ?s = subs ! a"
    by (auto simp: sortedGroup_set)
  have "startMs (hd ?s) \<le> startMs y" if "y \<in> set ?s" for y
    using srt ne that by (cases ?s) auto
  then show ?thesis using a by (auto simp: sortedGroup_set)
qed

lemma sortedGroup_last:
  assumes "g \<noteq> []"
  shows "\<exists>m\<in>set g. last (sortedGroup subs g) = subs ! m
           \<and> (\<forall>x\<in>set g. startMs (subs ! x) \<le> startMs (subs ! m))"
proof -
  let ?s = "sortedGroup subs g"
  have "length ?s = length g" by (simp add: sortedGroup_def)
  then have ne: "?s \<noteq> []" using assms by auto
  have srt: "sorted (map startMs ?s)" by (simp add: sortedGroup_def)
  have "last ?s \<in> set ?s" using ne by simp
  then obtain m where m: "m \<in> set g" "last ?s = subs ! m"
    by (auto simp: sortedGroup_set)
  have "startMs y \<le> startMs (last ?s)" if "y \<in> set ?s" for y
  proof -
    from that obtain k where k: "k < length ?s" "?s ! k = y" by (auto simp: in_set_conv_nth)
    have "map startMs ?s ! k \<le> map startMs ?s ! (length ?s - 1)"
      using srt k ne by (intro sorted_nth_mono) auto
    then show ?thesis using k ne by (simp add: last_conv_nth)
  qed
  then show ?thesis using m by (auto simp: sortedGroup_set)
qed

lemma rtrancl_crossing:
  assumes "(a, b) \<in> R\<^sup>*" "a \<in> L" "b \<notin> L"
  shows "\<exists>u v. (a, u) \<in> R\<^sup>* \<and> (u, v) \<in> R \<and> u \<in> L \<and> v \<notin> L"
  using assms
proof (induction rule: rtrancl_induct)
  case base
  then show ?case by simp
next
  case (step y z)
  show ?case
  proof (cases "y \<in> L")
    case True
    then show ?thesis using step by blast
  next
    case False
    then show ?thesis using step by blast
  qed
qed

lemma group_covers:
  assumes g: "g \<in> set (overlappingGroups subtitles)"
    and x1: "x1 \<in> set g" "startMs (map withMs subtitles ! x1) < ye"
    and x2: "x2 \<in> set g" "ys < endMs (map withMs subtitles ! x2)"
    and wf: "ys \<le> ye"
  shows "\<exists>v\<in>set g. startMs (map withMs subtitles ! v) < ye \<and> ys < endMs (map withMs subtitles ! v)"
proof (cases "ys < endMs (map withMs subtitles ! x1)")
  case True
  then show ?thesis using x1 by blast
next
  case False
  let ?subs = "map withMs subtitles"
  let ?L = "{x. endMs (?subs ! x) \<le> ys}"
  have "(x1, x2) \<in> (overlapEdges ?subs)\<^sup>*"
    using overlappingGroups_connected[OF g x1(1) x2(1)] .
  moreover have "x1 \<in> ?L" using False by simp
  moreover have "x2 \<notin> ?L" using x2(2) by simp
  ultimately obtain u v where uv: "(x1, u) \<in> (overlapEdges ?subs)\<^sup>*"
    "(u, v) \<in> overlapEdges ?subs" "u \<in> ?L" "v \<notin> ?L"
    using rtrancl_crossing[of x1 x2 "overlapEdges ?subs" ?L] by blast
  have "(x1, v) \<in> (overlapEdges ?subs)\<^sup>*" using uv(1,2) by (rule rtrancl_into_rtrancl)
  then have "v \<in> set g" using overlappingGroups_closed[OF g x1(1)] by blast
  moreover have "startMs (?subs ! v) < endMs (?subs ! u)"
    using uv(2) by (auto simp: overlapEdges_def overlapsMs_def)
  then have "startMs (?subs ! v) < ye" using uv(3) wf by simp
  moreover have "ys < endMs (?subs ! v)" using uv(4) by simp
  ultimately show ?thesis by blast
qed

lemma merged_span:
  assumes g: "g \<in> set (overlappingGroups subtitles)"
  shows "\<exists>a\<in>set g. \<exists>m\<in>set g.
           startMs (withMs (mergedSubtitle (sortedGroup (map withMs subtitles) g)))
             = startMs (map withMs subtitles ! a)
         \<and> endMs (withMs (mergedSubtitle (sortedGroup (map withMs subtitles) g)))
             = endMs (map withMs subtitles ! m)
         \<and> startMs (map withMs subtitles ! a) \<le> startMs (map withMs subtitles ! m)"
proof -
  let ?subs = "map withMs subtitles"
  have ne: "g \<noteq> []" using g by (rule overlappingGroups_nonempty)
  have sub: "set g \<subseteq> {..<length subtitles}"
    using g overlappingGroups_partition(2)[of subtitles] by auto
  from sortedGroup_hd[OF ne, of ?subs] obtain a where
    a: "a \<in> set g" "hd (sortedGroup ?subs g) = ?subs ! a"
       "\<forall>x\<in>set g. startMs (?subs ! a) \<le> startMs (?subs ! x)" by blast
  from sortedGroup_last[OF ne, of ?subs] obtain m where
    m: "m \<in> set g" "last (sortedGroup ?subs g) = ?subs ! m" by blast
  have "a < length subtitles" "m < length subtitles" using a(1) m(1) sub by auto
  then have "startMs (withMs (mergedSubtitle (sortedGroup ?subs g))) = startMs (?subs ! a)"
       "endMs (withMs (mergedSubtitle (sortedGroup ?subs g))) = endMs (?subs ! m)"
    using a(2) m(2) by (simp_all add: mergedSubtitle_def)
  moreover have "startMs (?subs ! a) \<le> startMs (?subs ! m)" using a(3) m(1) by blast
  ultimately show ?thesis using a(1) m(1) by blast
qed

lemma merged_groups_separate:
  assumes wf: "\<forall>c\<in>set subtitles. srtTimeToMs (start c) \<le> srtTimeToMs (end' c)"
    and g: "g \<in> set (overlappingGroups subtitles)"
    and h: "h \<in> set (overlappingGroups subtitles)"
    and disj: "set g \<inter> set h = {}"
  shows "\<not> overlapsMs (withMs (mergedSubtitle (sortedGroup (map withMs subtitles) g)))
                      (withMs (mergedSubtitle (sortedGroup (map withMs subtitles) h)))"
proof
  let ?subs = "map withMs subtitles"
  let ?Mg = "withMs (mergedSubtitle (sortedGroup ?subs g))"
  let ?Mh = "withMs (mergedSubtitle (sortedGroup ?subs h))"
  assume "overlapsMs ?Mg ?Mh"
  then have ov: "startMs ?Mg < endMs ?Mh" "startMs ?Mh < endMs ?Mg"
    by (auto simp: overlapsMs_def)
  from merged_span[OF g] obtain a m where
    am: "a \<in> set g" "m \<in> set g" "startMs ?Mg = startMs (?subs ! a)"
        "endMs ?Mg = endMs (?subs ! m)" "startMs (?subs ! a) \<le> startMs (?subs ! m)" by blast
  from merged_span[OF h] obtain a' m' where
    am': "a' \<in> set h" "m' \<in> set h" "startMs ?Mh = startMs (?subs ! a')"
        "endMs ?Mh = endMs (?subs ! m')" by blast
  have inr: "x < length subtitles" if "x \<in> set g \<or> x \<in> set h" for x
    using that g h overlappingGroups_partition(2)[of subtitles] by auto
  have wfx: "startMs (?subs ! x) \<le> endMs (?subs ! x)" if "x < length subtitles" for x
    using that wf by simp
  have "startMs ?Mg \<le> endMs ?Mg"
    using am(3,4,5) wfx[of m] inr[of m] am(2) by simp
  with group_covers[OF h am'(1) _ am'(2), of "endMs ?Mg" "startMs ?Mg"] ov am'
  obtain v where v: "v \<in> set h" "startMs (?subs ! v) < endMs ?Mg" "startMs ?Mg < endMs (?subs ! v)"
    by auto
  have "startMs (?subs ! v) \<le> endMs (?subs ! v)" using wfx inr v(1) by blast
  with group_covers[OF g am(1) _ am(2), of "endMs (?subs ! v)" "startMs (?subs ! v)"] v am
  obtain u where u: "u \<in> set g" "startMs (?subs ! u) < endMs (?subs ! v)"
    "startMs (?subs ! v) < endMs (?subs ! u)" by auto
  have "(u, v) \<in> overlapEdges ?subs"
    using u v(1) inr by (auto simp: overlapEdges_def overlapsMs_def)
  then have "v \<in> set g" using overlappingGroups_closed[OF g u(1)] by blast
  then show False using v(1) disj by blast
qed


lemma scan_fold_idle:
  "\<forall>j\<in>set js. j \<in> P \<or> \<not> hasOverlap subs g j \<Longrightarrow>
     fold (scanStep subs) js (g, P, f) = (g, P, f)"
  by (induction js) (auto simp: scanStep_simps)

lemma growGroup_idle:
  assumes "\<forall>j<length subs. j \<in> P \<or> \<not> hasOverlap subs g j"
  shows "growGroup subs g P = (g, P)"
proof -
  have "scanPass subs g P = (g, P, False)"
    unfolding scanPass_def using assms by (intro scan_fold_idle) auto
  then show ?thesis by (subst growGroup.simps) simp
qed

lemma join_single [simp]: "join sep [x] = x"
  by (simp add: join_def)

lemma mergedSubtitle_single:
  "k < length t \<Longrightarrow> mergedSubtitle (sortedGroup (map withMs t) [k]) = t ! k"
  by (simp add: mergedSubtitle_def sortedGroup_def)

lemma merge_separate_id:
  assumes sep: "\<forall>k<length t. \<forall>l<length t. k \<noteq> l \<longrightarrow>
                  \<not> overlapsMs (withMs (t ! k)) (withMs (t ! l))"
  shows "mergeOverlappingSubtitles t = t"
proof -
  let ?subs = "map withMs t"
  have run: "fold (mergeStep ?subs) [0..<k] ([], {}) = (take k t, {..<k})" if "k \<le> length t" for k
    using that
  proof (induction k)
    case 0
    then show ?case by simp
  next
    case (Suc k)
    have k: "k < length t" using Suc.prems by simp
    have "\<forall>j<length ?subs. j \<in> insert k {..<k} \<or> \<not> hasOverlap ?subs [k] j"
      using sep k by (auto simp: hasOverlap_iff)
    then have gg: "growGroup ?subs [k] (insert k {..<k}) = ([k], insert k {..<k})"
      by (rule growGroup_idle)
    have "fold (mergeStep ?subs) [0..<Suc k] ([], {}) = mergeStep ?subs k (take k t, {..<k})"
      using Suc.IH k by simp
    also have "\<dots> = (take k t @ [t ! k], insert k {..<k})"
      using gg k by (simp add: mergeStep_simps mergedSubtitle_single)
    also have "\<dots> = (take (Suc k) t, {..<Suc k})"
      using k by (simp add: take_Suc_conv_app_nth lessThan_Suc)
    finally show ?case .
  qed
  show ?thesis
  proof (cases "length t = 0")
    case True
    then show ?thesis by (simp add: mergeOverlappingSubtitles_def)
  next
    case False
    then show ?thesis using run[of "length t"] by (simp add: mergeOverlappingSubtitles_def)
  qed
qed

lemma distinct_concat_disjoint:
  "distinct (concat xs) \<Longrightarrow> k < length xs \<Longrightarrow> l < length xs \<Longrightarrow> k \<noteq> l \<Longrightarrow>
     set (xs ! k) \<inter> set (xs ! l) = {}"
proof (induction xs arbitrary: k l)
  case Nil
  then show ?case by simp
next
  case (Cons x xs)
  show ?case
  proof (cases k)
    case 0
    then obtain l' where l: "l = Suc l'" using Cons.prems(4) by (cases l) auto
    then have "xs ! l' \<in> set xs" using Cons.prems(3) by simp
    then show ?thesis using 0 l Cons.prems(1) by auto
  next
    case (Suc k')
    show ?thesis
    proof (cases l)
      case 0
      have "xs ! k' \<in> set xs" using Suc Cons.prems(2) by simp
      then show ?thesis using 0 Suc Cons.prems(1) by auto
    next
      case (Suc l')
      then show ?thesis using \<open>k = Suc k'\<close> Cons by auto
    qed
  qed
qed

lemma merge_idempotent_wellformed:
  assumes wf: "\<forall>c\<in>set subtitles. srtTimeToMs (start c) \<le> srtTimeToMs (end' c)"
  shows "mergeOverlappingSubtitles (mergeOverlappingSubtitles subtitles)
           = mergeOverlappingSubtitles subtitles"
proof (rule merge_separate_id, intro allI impI)
  fix k l
  let ?G = "overlappingGroups subtitles"
  let ?f = "\<lambda>g. mergedSubtitle (sortedGroup (map withMs subtitles) g)"
  assume "k < length (mergeOverlappingSubtitles subtitles)"
    "l < length (mergeOverlappingSubtitles subtitles)" "k \<noteq> l"
  then have kl: "k < length ?G" "l < length ?G" "k \<noteq> l"
    by (simp_all add: mergeOverlappingSubtitles_groups)
  then have "set (?G ! k) \<inter> set (?G ! l) = {}"
    using overlappingGroups_partition(1)[of subtitles] by (intro distinct_concat_disjoint)
  moreover have "?G ! k \<in> set ?G" "?G ! l \<in> set ?G" using kl by auto
  ultimately have "\<not> overlapsMs (withMs (?f (?G ! k))) (withMs (?f (?G ! l)))"
    using merged_groups_separate[OF wf] by blast
  then show "\<not> overlapsMs (withMs (mergeOverlappingSubtitles subtitles ! k))
                          (withMs (mergeOverlappingSubtitles subtitles ! l))"
    using kl by (simp add: mergeOverlappingSubtitles_groups)
qed

lemma overlapEdges_iff:
  "i < length subtitles \<Longrightarrow> j < length subtitles \<Longrightarrow>
   ((i, j) \<in> overlapEdges (map withMs subtitles))
     = (srtTimeToMs (start (subtitles ! i)) < srtTimeToMs (end' (subtitles ! j))
        \<and> srtTimeToMs (start (subtitles ! j)) < srtTimeToMs (end' (subtitles ! i)))"
  by (simp add: overlapEdges_def overlapsMs_def)

lemma same_group_iff_connected:
  assumes i: "i < length subtitles" and j: "j < length subtitles"
  shows "(\<exists>g\<in>set (overlappingGroups subtitles). i \<in> set g \<and> j \<in> set g)
           = ((i, j) \<in> (overlapEdges (map withMs subtitles))\<^sup>*)"
proof
  assume "\<exists>g\<in>set (overlappingGroups subtitles). i \<in> set g \<and> j \<in> set g"
  then show "(i, j) \<in> (overlapEdges (map withMs subtitles))\<^sup>*"
    using overlappingGroups_connected by blast
next
  assume c: "(i, j) \<in> (overlapEdges (map withMs subtitles))\<^sup>*"
  have "i \<in> set (concat (overlappingGroups subtitles))"
    using i overlappingGroups_partition(2)[of subtitles] by simp
  then obtain g where g: "g \<in> set (overlappingGroups subtitles)" "i \<in> set g" by auto
  then have "j \<in> set g" using overlappingGroups_closed[OF g c] by simp
  then show "\<exists>g\<in>set (overlappingGroups subtitles). i \<in> set g \<and> j \<in> set g"
    using g by blast
qed



lemma nested_fuse:
  "fuseSubtitles wordLemmatizer () nestedTargets nestedNatives {''ok''} ''fr'' False None
     = Inr \<lparr>hybrid = [\<lparr>index = ''1'', start = ''00:00:01,000'', end' = ''00:00:04,000'',
                        text' = ''Salut''\<rparr>],
            replacedCountR = 2, replacedWithOneUnknownR = 0, inlineTranslationCountR = 0,
            errorCountR = 0, translatedWordsR = []\<rparr>"
  "srtTimeToMs ''00:00:04,000'' < srtTimeToMs (end' (nestedTargets ! 0))"
  by code_simp+

section \<open>Properties of the merger\<close>

text \<open>
  Claim C2, as the code has it. \<^verbatim>\<open>mergeOverlappingSubtitles\<close> emits one cue per group, and two
  positions of the input track lie in the same group exactly when a chain of pairwise
  overlaps connects them, where two cues overlap when each starts strictly before the
  other ends (\<^verbatim>\<open>groupSub.startMs < other.endMs && other.startMs < groupSub.endMs\<close>): any
  positive overlap links two cues, the 500 ms threshold of \<^verbatim>\<open>hasIntersection\<close> plays no part.
\<close>

theorem overlappingGroups_are_components:
  assumes "i < length subtitles" and "j < length subtitles"
  shows "mergeOverlappingSubtitles subtitles
           = map (\<lambda>g. mergedSubtitle (sortedGroup (map withMs subtitles) g))
               (overlappingGroups subtitles)
       \<and> (\<exists>g\<in>set (overlappingGroups subtitles). i \<in> set g \<and> j \<in> set g)
           = ((i, j) \<in> (overlapEdges (map withMs subtitles))\<^sup>*)
       \<and> ((i, j) \<in> overlapEdges (map withMs subtitles))
           = (srtTimeToMs (start (subtitles ! i)) < srtTimeToMs (end' (subtitles ! j))
              \<and> srtTimeToMs (start (subtitles ! j)) < srtTimeToMs (end' (subtitles ! i)))"
  using assms
  by (simp only: mergeOverlappingSubtitles_groups same_group_iff_connected
      overlapEdges_iff simp_thms)

text \<open>Claim C2, the amended statement at the track of two cues that share one millisecond.\<close>

theorem overlappingGroups_are_components_witness:
  "(0, 1) \<in> overlapEdges (map withMs briefOverlapTrack)
   \<and> (\<exists>g\<in>set (overlappingGroups briefOverlapTrack). 0 \<in> set g \<and> 1 \<in> set g)"
proof -
  have l: "0 < length briefOverlapTrack" "1 < length briefOverlapTrack"
    by (simp_all add: briefOverlapTrack_def)
  have e: "(0, 1) \<in> overlapEdges (map withMs briefOverlapTrack)"
    by (simp add: overlapEdges_def overlapsMs_def briefOverlapTrack_def srtTimeToMs_samples)
  then have "(0, 1) \<in> (overlapEdges (map withMs briefOverlapTrack))\<^sup>*" by blast
  then show ?thesis
    using overlappingGroups_are_components[OF l] e by blast
qed

text \<open>
  Claim C2 as stated fails: the cues (0, 1000) and (999, 2000) overlap by 1 ms, which
  is positive and at most 500 ms, \<^verbatim>\<open>hasIntersection\<close> rejects the pair, and the merger still
  fuses the two into one cue.
\<close>

theorem mergeOverlappingSubtitles_ignores_threshold:
  "\<not> hasIntersection ''00:00:00,000'' ''00:00:01,000'' ''00:00:00,999'' ''00:00:02,000''
   \<and> 0 < min (srtTimeToMs ''00:00:01,000'') (srtTimeToMs ''00:00:02,000'')
          - max (srtTimeToMs ''00:00:00,000'') (srtTimeToMs ''00:00:00,999'')
   \<and> min (srtTimeToMs ''00:00:01,000'') (srtTimeToMs ''00:00:02,000'')
          - max (srtTimeToMs ''00:00:00,000'') (srtTimeToMs ''00:00:00,999'') \<le> 500
   \<and> overlappingGroups briefOverlapTrack = [[0, 1]]
   \<and> mergeOverlappingSubtitles briefOverlapTrack
       = [\<lparr>index = ''1'', start = ''00:00:00,000'', end' = ''00:00:02,000'',
           text' = ''A'' @ [CHR 0x0A] @ ''B''\<rparr>]"
proof -
  have "overlappingGroups briefOverlapTrack = [[0, 1]]" by code_simp
  moreover have "mergeOverlappingSubtitles briefOverlapTrack
       = [\<lparr>index = ''1'', start = ''00:00:00,000'', end' = ''00:00:02,000'',
           text' = ''A'' @ [CHR 0x0A] @ ''B''\<rparr>]" by code_simp
  ultimately show ?thesis
    by (simp add: hasIntersection_def Let_def srtTimeToMs_samples)
qed

text \<open>
  Claim C3 at tracks with a nested cue. In the merger the cue (1 s, 2 s) lies inside the cue
  (0 s, 10 s); both form one group; the merged cue takes its end from the member that
  starts last, so it ends at 2 s although a member of the group ends at 10 s. In the fusion
  engine the target cues (1 s, 10 s) and (2 s, 4 s) are replaced together; the replacement takes
  its end from the last cue of the group in track order and ends at 4 s, not at 10 s.
\<close>

theorem mergeOverlappingSubtitles_nested_end:
  "mergeOverlappingSubtitles nestedTrack
     = [\<lparr>index = ''1'', start = ''00:00:00,000'', end' = ''00:00:02,000'',
         text' = ''A'' @ [CHR 0x0A] @ ''B''\<rparr>]
   \<and> overlappingGroups nestedTrack = [[0, 1]]
   \<and> srtTimeToMs ''00:00:02,000''
       < max (srtTimeToMs (end' (nestedTrack ! 0))) (srtTimeToMs (end' (nestedTrack ! 1)))
   \<and> fuseSubtitles wordLemmatizer () nestedTargets nestedNatives {''ok''} ''fr'' False None
       = Inr \<lparr>hybrid = [\<lparr>index = ''1'', start = ''00:00:01,000'', end' = ''00:00:04,000'',
                          text' = ''Salut''\<rparr>],
              replacedCountR = 2, replacedWithOneUnknownR = 0, inlineTranslationCountR = 0,
              errorCountR = 0, translatedWordsR = []\<rparr>
   \<and> srtTimeToMs ''00:00:04,000'' < srtTimeToMs (end' (nestedTargets ! 0))"
proof -
  have "mergeOverlappingSubtitles nestedTrack
     = [\<lparr>index = ''1'', start = ''00:00:00,000'', end' = ''00:00:02,000'',
         text' = ''A'' @ [CHR 0x0A] @ ''B''\<rparr>]" by code_simp
  moreover have "overlappingGroups nestedTrack = [[0, 1]]" by code_simp
  moreover have "srtTimeToMs ''00:00:02,000''
       < max (srtTimeToMs (end' (nestedTrack ! 0))) (srtTimeToMs (end' (nestedTrack ! 1)))"
    by (simp add: nestedTrack_def srtTimeToMs_samples)
  ultimately show ?thesis using nested_fuse by blast
qed



text \<open>
  Claim C7 fails on a track with a cue whose start lies after its end: the cue
  (12 s, 5 s) overlaps neither (0 s, 10 s) nor (8 s, 20 s), but it does overlap their merged
  cue (0 s, 20 s), so the second application fuses what the first kept apart.
\<close>

theorem mergeOverlappingSubtitles_not_idempotent:
  "mergeOverlappingSubtitles (mergeOverlappingSubtitles reversedCueTrack)
     \<noteq> mergeOverlappingSubtitles reversedCueTrack"
  by code_simp

text \<open>
  Claim C7, amended: on every track whose cues all start no later than they end,
  merging twice gives the same cues as merging once.
\<close>

theorem mergeOverlappingSubtitles_idempotent:
  assumes "\<forall>c\<in>set subtitles. srtTimeToMs (start c) \<le> srtTimeToMs (end' c)"
  shows "mergeOverlappingSubtitles (mergeOverlappingSubtitles subtitles)
           = mergeOverlappingSubtitles subtitles"
  using assms by (rule merge_idempotent_wellformed)

text \<open>Claim C7, the amended statement at the track with the nested cue.\<close>

theorem mergeOverlappingSubtitles_idempotent_witness:
  "srtTimeToMs ''00:00:00,000'' \<le> srtTimeToMs ''00:00:10,000''
   \<and> srtTimeToMs ''00:00:01,000'' \<le> srtTimeToMs ''00:00:02,000''
   \<and> mergeOverlappingSubtitles (mergeOverlappingSubtitles nestedTrack)
       = mergeOverlappingSubtitles nestedTrack"
proof -
  have "\<forall>c\<in>set nestedTrack. srtTimeToMs (start c) \<le> srtTimeToMs (end' c)"
    by (simp add: nestedTrack_def srtTimeToMs_samples)
  then show ?thesis
    using mergeOverlappingSubtitles_idempotent[of nestedTrack] by (simp add: srtTimeToMs_samples)
qed


section \<open>Properties of the vocabulary classifier\<close>






lemma toLowerChar_toUpperChar: "toLowerChar (toUpperChar c) = toLowerChar c"
  by (simp add: toLowerChar_def toUpperChar_def upperAZ_def lowerAZ_def)

lemma toLowerChar_idem: "toLowerChar (toLowerChar c) = toLowerChar c"
  by (simp add: toLowerChar_def upperAZ_def lowerAZ_def)

lemma toLowerCase_idem: "toLowerCase (toLowerCase w) = toLowerCase w"
  by (simp add: toLowerCase_def toLowerChar_idem)

lemma toLowerCase_capitalized:
  "toLowerCase (toUpperCase (take n w) @ drop n w) = toLowerCase w"
proof -
  have "toLowerCase (toUpperCase (take n w) @ drop n w)
          = toLowerCase (take n w) @ toLowerCase (drop n w)"
    by (simp add: toLowerCase_def toUpperCase_def toLowerChar_toUpperChar)
  also have "\<dots> = toLowerCase (take n w @ drop n w)"
    by (simp only: toLowerCase_def map_append)
  finally show ?thesis by simp
qed

lemma contraction_components_lower:
  "list_all (\<lambda>(k, expansion). toLowerCase k \<noteq> k \<or> map toLowerCase expansion = expansion)
     ENGLISH_CONTRACTIONS"
  by code_simp

lemma map_toLowerCase_capitalizeFirst:
  "map toLowerCase (capitalizeFirst expansion) = map toLowerCase expansion"
  by (cases expansion) (simp_all add: capitalizeFirst_def toLowerCase_capitalized)

lemma isWordKnown_true_iff:
  "(isWordKnown word knownWords language = Inr True)
     = (toLowerCase word \<in> knownWords
        \<or> (language = ''en''
            \<and> (\<exists>expansion. map_of ENGLISH_CONTRACTIONS (toLowerCase word) = Some expansion
                   \<and> set expansion \<subseteq> knownWords)))"
proof (cases "toLowerCase word \<in> knownWords \<or> language \<noteq> ''en''")
  case True
  then show ?thesis by (auto simp: isWordKnown_def Let_def)
next
  case False
  then have nk: "toLowerCase word \<notin> knownWords" and en: "language = ''en''" by auto
  show ?thesis
  proof (cases "map_of ENGLISH_CONTRACTIONS (toLowerCase word)")
    case None
    then show ?thesis
      using nk en
      by (auto simp: isWordKnown_def Let_def getContractionExpansion_def lookupContraction_def)
  next
    case (Some expansion)
    then have "(toLowerCase word, expansion) \<in> set ENGLISH_CONTRACTIONS" by (rule map_of_SomeD)
    then have low: "map toLowerCase expansion = expansion"
      using contraction_components_lower toLowerCase_idem[of word]
      by (auto simp: list_all_iff)
    have all: "list_all (\<lambda>e. toLowerCase e \<in> knownWords) xs
                 = (set (map toLowerCase xs) \<subseteq> knownWords)" for xs
      by (auto simp: list_all_iff)
    have "isWordKnown word knownWords language = Inr (set expansion \<subseteq> knownWords)"
      using nk en Some low
      by (simp add: isWordKnown_def Let_def getContractionExpansion_def lookupContraction_def
          all map_toLowerCase_capitalizeFirst del: set_map)
    then show ?thesis using nk en Some by simp
  qed
qed


text \<open>
  Claim C8 on the code. \<^verbatim>\<open>isWordKnown\<close> returns true exactly when the lower-cased word is
  known or, for English, the table has an entry under the lower-cased word whose
  components are all known. The entries \<^verbatim>\<open>I'm\<close>, \<^verbatim>\<open>I'll\<close>, \<^verbatim>\<open>I've\<close> and \<^verbatim>\<open>I'd\<close> of the table are
  written with a capital letter and so are never found: \<^verbatim>\<open>I'm\<close> is not known although the
  table expands it to \<^verbatim>\<open>I\<close>, \<^verbatim>\<open>am\<close> and both are known. For the unknown word \<^verbatim>\<open>constructor\<close>
  the lookup finds a member inherited from \<^verbatim>\<open>Object.prototype\<close> and the call throws. The
  two examples with \<^verbatim>\<open>don't\<close> evaluate as the claim states.
\<close>

theorem isWordKnown_dead_entries:
  "(isWordKnown word knownWords language = Inr True)
     = (toLowerCase word \<in> knownWords
        \<or> (language = ''en''
            \<and> (\<exists>expansion. map_of ENGLISH_CONTRACTIONS (toLowerCase word) = Some expansion
                   \<and> set expansion \<subseteq> knownWords)))
   \<and> map_of ENGLISH_CONTRACTIONS ''I'm'' = Some [''I'', ''am'']
   \<and> isWordKnown ''I'm'' {''i'', ''am''} ''en'' = Inr False
   \<and> isWordKnown ''i'm'' {''i'', ''am''} ''en'' = Inr False
   \<and> isWordKnown ''constructor'' {''do'', ''not''} ''en'' = Inl TypeError
   \<and> isWordKnown ''don't'' {''do''} ''en'' = Inr False
   \<and> isWordKnown ''don't'' {''do'', ''not''} ''en'' = Inr True"
proof -
  have "map_of ENGLISH_CONTRACTIONS ''I'm'' = Some [''I'', ''am'']
   \<and> isWordKnown ''I'm'' {''i'', ''am''} ''en'' = Inr False
   \<and> isWordKnown ''i'm'' {''i'', ''am''} ''en'' = Inr False
   \<and> isWordKnown ''constructor'' {''do'', ''not''} ''en'' = Inl TypeError
   \<and> isWordKnown ''don't'' {''do''} ''en'' = Inr False
   \<and> isWordKnown ''don't'' {''do'', ''not''} ''en'' = Inr True"
    by code_simp
  then show ?thesis using isWordKnown_true_iff[of word knownWords language] by blast
qed

section \<open>Properties of the fusion engine\<close>

lemma pushSub_fields [simp]:
  "finalSubtitles (pushSub s st) = finalSubtitles st @ [s]"
  "processedTargetIndices (pushSub s st) = processedTargetIndices st"
  "replacedCount (pushSub s st) = replacedCount st"
  by (simp_all add: pushSub_def)

lemma markProcessed_fields [simp]:
  "finalSubtitles (markProcessed i st) = finalSubtitles st"
  "processedTargetIndices (markProcessed i st) = insert i (processedTargetIndices st)"
  "replacedCount (markProcessed i st) = replacedCount st"
  by (simp_all add: markProcessed_def)


lemma replaceMulti_none:
  "intersectingNativeSubs nativeSubs c = [] \<Longrightarrow>
     replaceMulti targetSubs nativeSubs c st = markProcessed (index c) (pushSub c st)"
  by (simp add: replaceMulti_def)

lemma replaceMulti_group:
  assumes "intersectingNativeSubs nativeSubs c \<noteq> []"
    and "overlappingTargetSubs targetSubs (processedTargetIndices st)
           (start (hd (intersectingNativeSubs nativeSubs c)))
           (end' (last (intersectingNativeSubs nativeSubs c))) = overlapping"
    and "overlapping \<noteq> []"
  shows "replaceMulti targetSubs nativeSubs c st
           = (pushSub \<lparr>index = [], start = start (hd overlapping), end' = end' (last overlapping),
                       text' = combinedNativeText (intersectingNativeSubs nativeSubs c)\<rparr> st)
               \<lparr>replacedCount := replacedCount st + length overlapping,
                processedTargetIndices := processedTargetIndices st \<union> set (map index overlapping)\<rparr>"
  using assms by (simp add: replaceMulti_def Let_def)


lemma replaceMulti_props:
  "length (finalSubtitles (replaceMulti targetSubs nativeSubs c st))
     = Suc (length (finalSubtitles st))
   \<and> (processedTargetIndices (replaceMulti targetSubs nativeSubs c st)
         = insert (index c) (processedTargetIndices st)
       \<or> (\<exists>overlapping. overlapping \<noteq> [] \<and> set overlapping \<subseteq> set targetSubs
             \<and> processedTargetIndices (replaceMulti targetSubs nativeSubs c st)
                 = processedTargetIndices st \<union> index ` set overlapping))"
proof (cases "intersectingNativeSubs nativeSubs c = []")
  case True
  then show ?thesis by (simp add: replaceMulti_none)
next
  case False
  let ?ov = "overlappingTargetSubs targetSubs (processedTargetIndices st)
           (start (hd (intersectingNativeSubs nativeSubs c)))
           (end' (last (intersectingNativeSubs nativeSubs c)))"
  show ?thesis
  proof (cases "?ov = []")
    case True
    then show ?thesis using False by (simp add: replaceMulti_def Let_def)
  next
    case ne: False
    have "set ?ov \<subseteq> set targetSubs" by (auto simp: overlappingTargetSubs_def)
    then show ?thesis
      using replaceMulti_group[OF False refl ne] ne by (auto simp: pushSub_def)
  qed
qed

lemma translateInline_props:
  "length (finalSubtitles (translateInline service targetSubs nativeSubs knownWords unknownWords c st))
     = Suc (length (finalSubtitles st))
   \<and> processedTargetIndices (translateInline service targetSubs nativeSubs knownWords unknownWords c st)
       = insert (index c) (processedTargetIndices st)"
  by (auto simp: translateInline_def Let_def pushSub_def markProcessed_def
      split: prod.splits sum.splits)

lemma fuseStep_skip:
  "index c \<in> processedTargetIndices st \<Longrightarrow>
     fuseStep lem svc targetSubs nativeSubs knownWords language c st = Inr st"
  by (simp add: fuseStep_def)

lemma fuseStep_props:
  assumes "fuseStep lem svc targetSubs nativeSubs knownWords language c st = Inr st'"
    and "index c \<notin> processedTargetIndices st"
  shows "length (finalSubtitles st') = Suc (length (finalSubtitles st))
   \<and> (processedTargetIndices st' = insert (index c) (processedTargetIndices st)
       \<or> (\<exists>overlapping. overlapping \<noteq> [] \<and> set overlapping \<subseteq> set targetSubs
             \<and> processedTargetIndices st' = processedTargetIndices st \<union> index ` set overlapping))"
proof (cases "unknownWordsOf lem knownWords language c")
  case (Inl e)
  then show ?thesis using assms by (simp add: fuseStep_def)
next
  case (Inr unknownWords)
  show ?thesis
  proof (cases "length unknownWords = 0")
    case True
    then show ?thesis using assms Inr by (auto simp: fuseStep_def)
  next
    case False
    show ?thesis
    proof (cases "if length unknownWords = 1 then svc else None")
      case None
      then have "st' = replaceMulti targetSubs nativeSubs c st"
        using assms Inr False by (simp add: fuseStep_def)
      then show ?thesis using replaceMulti_props[of targetSubs nativeSubs c st] by simp
    next
      case (Some service)
      then have "st' = translateInline service targetSubs nativeSubs knownWords unknownWords c st"
        using assms Inr False by (simp add: fuseStep_def)
      then show ?thesis
        using translateInline_props[of service targetSubs nativeSubs knownWords unknownWords c st]
        by simp
    qed
  qed
qed

lemma fuseStep_mono:
  assumes "fuseStep lem svc targetSubs nativeSubs knownWords language c st = Inr st'"
  shows "processedTargetIndices st \<subseteq> processedTargetIndices st'"
proof (cases "index c \<in> processedTargetIndices st")
  case True
  then show ?thesis using assms by (simp add: fuseStep_skip)
next
  case False
  from fuseStep_props[OF assms False] show ?thesis by auto
qed

lemma fuseLoop_mono:
  "fuseLoop lem svc targetSubs nativeSubs knownWords language cs st = Inr st' \<Longrightarrow>
     processedTargetIndices st \<subseteq> processedTargetIndices st'"
proof (induction cs arbitrary: st)
  case Nil
  then show ?case by simp
next
  case (Cons c cs)
  then obtain st1 where
    1: "fuseStep lem svc targetSubs nativeSubs knownWords language c st = Inr st1"
    and 2: "fuseLoop lem svc targetSubs nativeSubs knownWords language cs st1 = Inr st'"
    by (auto split: sum.splits)
  from fuseStep_mono[OF 1] Cons.IH[OF 2] show ?case by blast
qed

lemma fuseLoop_append:
  "fuseLoop lem svc targetSubs nativeSubs knownWords language (xs @ ys) st
     = (case fuseLoop lem svc targetSubs nativeSubs knownWords language xs st of
          Inl e \<Rightarrow> Inl e
        | Inr st1 \<Rightarrow> fuseLoop lem svc targetSubs nativeSubs knownWords language ys st1)"
  by (induction xs arbitrary: st) (auto split: sum.splits)

lemma fuseLoop_length:
  "fuseLoop lem svc targetSubs nativeSubs knownWords language cs st = Inr st' \<Longrightarrow>
     length (finalSubtitles st') \<le> length (finalSubtitles st) + length cs"
proof (induction cs arbitrary: st)
  case Nil
  then show ?case by simp
next
  case (Cons c cs)
  then obtain st1 where
    1: "fuseStep lem svc targetSubs nativeSubs knownWords language c st = Inr st1"
    and 2: "fuseLoop lem svc targetSubs nativeSubs knownWords language cs st1 = Inr st'"
    by (auto split: sum.splits)
  have "length (finalSubtitles st1) \<le> Suc (length (finalSubtitles st))"
  proof (cases "index c \<in> processedTargetIndices st")
    case True
    then show ?thesis using 1 by (simp add: fuseStep_skip)
  next
    case False
    from fuseStep_props[OF 1 False] show ?thesis by simp
  qed
  then show ?case using Cons.IH[OF 2] by simp
qed






text \<open>
  Outside English no contraction is looked up, and the run always returns; whenever a
  run returns, it has emitted at most one cue per target cue.
\<close>

lemma isWordKnown_other_language:
  "language \<noteq> ''en'' \<Longrightarrow> \<exists>b. isWordKnown word knownWords language = Inr b"
  by (auto simp: isWordKnown_def Let_def)

lemma unknownWordsFrom_other_language:
  "language \<noteq> ''en'' \<Longrightarrow>
     \<exists>us. unknownWordsFrom knownWords language sentence originalWords j ws = Inr us"
proof (induction ws arbitrary: j)
  case Nil
  then show ?case by simp
next
  case (Cons w ws)
  obtain b where b: "isWordKnown w knownWords language = Inr b"
    using isWordKnown_other_language[OF Cons.prems] by blast
  obtain us where us: "unknownWordsFrom knownWords language sentence originalWords (Suc j) ws = Inr us"
    using Cons.IH[OF Cons.prems] by blast
  show ?case using b us by (simp add: Let_def)
qed

lemma fuseStep_other_language:
  "language \<noteq> ''en'' \<Longrightarrow>
     \<exists>st'. fuseStep lem svc targetSubs nativeSubs knownWords language c st = Inr st'"
proof -
  assume l: "language \<noteq> ''en''"
  obtain us where "unknownWordsOf lem knownWords language c = Inr us"
    unfolding unknownWordsOf_def Let_def using unknownWordsFrom_other_language[OF l] by blast
  then show ?thesis by (auto simp: fuseStep_def split: option.splits)
qed

lemma fuseLoop_other_language:
  "language \<noteq> ''en'' \<Longrightarrow>
     \<exists>st'. fuseLoop lem svc targetSubs nativeSubs knownWords language cs st = Inr st'"
proof (induction cs arbitrary: st)
  case Nil
  then show ?case by simp
next
  case (Cons c cs)
  obtain st1 where "fuseStep lem svc targetSubs nativeSubs knownWords language c st = Inr st1"
    using fuseStep_other_language[OF Cons.prems] by blast
  then show ?case using Cons.IH[OF Cons.prems, of st1] by simp
qed

lemma reIndex_length: "length (reIndex subs) = length subs"
  by (simp add: reIndex_def)

lemma fuseSubtitles_other_language:
  assumes "language \<noteq> ''en''"
  shows "\<exists>r. fuseSubtitles lem deepl0 targetSubs nativeSubs knownWords language enable deeplAPI = Inr r
             \<and> length (hybrid r) \<le> length targetSubs"
proof -
  let ?svc = "if enable then deeplAPI else None"
  obtain st where st: "fuseLoop lem ?svc targetSubs nativeSubs knownWords language targetSubs
                         (initialState deepl0) = Inr st"
    using fuseLoop_other_language[OF assms] by blast
  have "length (finalSubtitles st) \<le> length (finalSubtitles (initialState deepl0)) + length targetSubs"
    using st by (rule fuseLoop_length)
  then have "length (finalSubtitles st) \<le> length targetSubs" by (simp add: initialState_def)
  then show ?thesis using st by (simp add: fuseSubtitles_def Let_def reIndex_length)
qed

lemma fuseSubtitles_cue_count:
  assumes "fuseSubtitles lem deepl0 targetSubs nativeSubs knownWords language enable deeplAPI = Inr r"
  shows "length (hybrid r) \<le> length targetSubs"
proof -
  let ?svc = "if enable then deeplAPI else None"
  obtain st where st: "fuseLoop lem ?svc targetSubs nativeSubs knownWords language targetSubs
                         (initialState deepl0) = Inr st"
    and r: "hybrid r = reIndex (finalSubtitles st)"
    using assms by (auto simp: fuseSubtitles_def Let_def split: sum.splits)
  have "length (finalSubtitles st) \<le> length (finalSubtitles (initialState deepl0)) + length targetSubs"
    using st by (rule fuseLoop_length)
  then show ?thesis using r by (simp add: initialState_def reIndex_length)
qed


text \<open>
  Claim C4 at an English cue with the word \<^verbatim>\<open>constructor\<close> outside the known words: the
  word analysis throws a \<^verbatim>\<open>TypeError\<close> and \<^verbatim>\<open>fuseSubtitles\<close> does not return a hybrid track.
\<close>

theorem fuseSubtitles_aborts_on_inherited_key:
  "isWordKnown ''constructor'' {''the''} ''en'' = Inl TypeError
   \<and> unknownWordsOf wordLemmatizer {''the''} ''en'' (constructorTargets ! 0) = Inl TypeError
   \<and> fuseSubtitles wordLemmatizer () constructorTargets [] {''the''} ''en'' False None
       = Inl TypeError"
  by code_simp

lemma sameIndex_run:
  "fuseSubtitles wordLemmatizer () sameIndexTargets [] {''ok''} ''fr'' False None
       = Inr \<lparr>hybrid = [\<lparr>index = ''1'', start = ''00:00:01,200'', end' = ''00:00:02,000'',
                          text' = ''ok''\<rparr>],
              replacedCountR = 0, replacedWithOneUnknownR = 0, inlineTranslationCountR = 0,
              errorCountR = 0, translatedWordsR = []\<rparr>"
  by code_simp

text \<open>
  Claim C10. Consumption is recorded by the index string of a cue. A cue whose index
  string is already recorded is skipped by its own iteration, which leaves the state
  (and so the output) unchanged, and it is left out of every replacement group; the whole
  run over a track equals the run that passes over such a cue. An iteration that is not
  skipped emits exactly one cue and records the index string of the cue it kept,
  translated or replaced, or the index strings of the whole group it folded into a
  replacement; recorded index strings are never removed. With two target cues of index
  \<^verbatim>\<open>7\<close>, both without unknown words, the output holds the first cue only.
\<close>

theorem consumption_keyed_by_index_string:
  "(index c \<in> processedTargetIndices st \<longrightarrow>
       fuseStep lem svc targetSubs nativeSubs knownWords language c st = Inr st
     \<and> fuseLoop lem svc targetSubs nativeSubs knownWords language (c # rest) st
         = fuseLoop lem svc targetSubs nativeSubs knownWords language rest st
     \<and> c \<notin> set (overlappingTargetSubs targetSubs (processedTargetIndices st)
                   combinedStart combinedEnd))
   \<and> (fuseLoop lem svc targetSubs nativeSubs knownWords language pre st0 = Inr st
        \<and> index c \<in> processedTargetIndices st \<longrightarrow>
       fuseLoop lem svc targetSubs nativeSubs knownWords language (pre @ c # rest) st0
         = fuseLoop lem svc targetSubs nativeSubs knownWords language rest st)
   \<and> (fuseStep lem svc targetSubs nativeSubs knownWords language c st = Inr st'
        \<and> index c \<notin> processedTargetIndices st \<longrightarrow>
       length (finalSubtitles st') = Suc (length (finalSubtitles st))
     \<and> (processedTargetIndices st' = insert (index c) (processedTargetIndices st)
        \<or> (\<exists>overlapping. overlapping \<noteq> [] \<and> set overlapping \<subseteq> set targetSubs
              \<and> processedTargetIndices st'
                  = processedTargetIndices st \<union> index ` set overlapping)))
   \<and> (fuseLoop lem svc targetSubs nativeSubs knownWords language cs st = Inr st' \<longrightarrow>
       processedTargetIndices st \<subseteq> processedTargetIndices st')
   \<and> fuseSubtitles wordLemmatizer () sameIndexTargets [] {''ok''} ''fr'' False None
       = Inr \<lparr>hybrid = [\<lparr>index = ''1'', start = ''00:00:01,200'', end' = ''00:00:02,000'',
                          text' = ''ok''\<rparr>],
              replacedCountR = 0, replacedWithOneUnknownR = 0, inlineTranslationCountR = 0,
              errorCountR = 0, translatedWordsR = []\<rparr>"
proof (intro conjI impI)
  assume p: "index c \<in> processedTargetIndices st"
  show "fuseStep lem svc targetSubs nativeSubs knownWords language c st = Inr st"
    using p by (rule fuseStep_skip)
  then show "fuseLoop lem svc targetSubs nativeSubs knownWords language (c # rest) st
         = fuseLoop lem svc targetSubs nativeSubs knownWords language rest st"
    by simp
  show "c \<notin> set (overlappingTargetSubs targetSubs (processedTargetIndices st)
                   combinedStart combinedEnd)"
    using p by (simp add: overlappingTargetSubs_def)
next
  assume "fuseLoop lem svc targetSubs nativeSubs knownWords language pre st0 = Inr st
        \<and> index c \<in> processedTargetIndices st"
  then show "fuseLoop lem svc targetSubs nativeSubs knownWords language (pre @ c # rest) st0
         = fuseLoop lem svc targetSubs nativeSubs knownWords language rest st"
    by (simp add: fuseLoop_append fuseStep_skip)
next
  assume a: "fuseStep lem svc targetSubs nativeSubs knownWords language c st = Inr st'
        \<and> index c \<notin> processedTargetIndices st"
  then show "length (finalSubtitles st') = Suc (length (finalSubtitles st))"
    using fuseStep_props by blast
  show "processedTargetIndices st' = insert (index c) (processedTargetIndices st)
        \<or> (\<exists>overlapping. overlapping \<noteq> [] \<and> set overlapping \<subseteq> set targetSubs
              \<and> processedTargetIndices st'
                  = processedTargetIndices st \<union> index ` set overlapping)"
    using a fuseStep_props by blast
next
  assume "fuseLoop lem svc targetSubs nativeSubs knownWords language cs st = Inr st'"
  then show "processedTargetIndices st \<subseteq> processedTargetIndices st'"
    by (rule fuseLoop_mono)
next
  show "fuseSubtitles wordLemmatizer () sameIndexTargets [] {''ok''} ''fr'' False None
       = Inr \<lparr>hybrid = [\<lparr>index = ''1'', start = ''00:00:01,200'', end' = ''00:00:02,000'',
                          text' = ''ok''\<rparr>],
              replacedCountR = 0, replacedWithOneUnknownR = 0, inlineTranslationCountR = 0,
              errorCountR = 0, translatedWordsR = []\<rparr>"
    by (rule sameIndex_run)
qed

lemma sameIndex_first_step:
  "fuseStep wordLemmatizer None sameIndexTargets [] {''ok''} ''fr'' (sameIndexTargets ! 0)
     (initialState ())
     = Inr (markProcessed ''7'' (pushSub (sameIndexTargets ! 0) (initialState ())))"
  "index (sameIndexTargets ! 1)
     \<in> processedTargetIndices (markProcessed ''7'' (pushSub (sameIndexTargets ! 0) (initialState ())))"
  "index (sameIndexTargets ! 0) \<notin> processedTargetIndices (initialState ())"
  by code_simp+

text \<open>Claim C10: the skip at the second of the two cues with index \<^verbatim>\<open>7\<close>.\<close>

theorem consumption_keyed_by_index_string_witness:
  "fuseStep wordLemmatizer None sameIndexTargets [] {''ok''} ''fr'' (sameIndexTargets ! 0)
     (initialState ())
     = Inr (markProcessed ''7'' (pushSub (sameIndexTargets ! 0) (initialState ())))
   \<and> index (sameIndexTargets ! 1)
     \<in> processedTargetIndices (markProcessed ''7'' (pushSub (sameIndexTargets ! 0) (initialState ())))
   \<and> fuseStep wordLemmatizer None sameIndexTargets [] {''ok''} ''fr'' (sameIndexTargets ! 1)
       (markProcessed ''7'' (pushSub (sameIndexTargets ! 0) (initialState ())))
     = Inr (markProcessed ''7'' (pushSub (sameIndexTargets ! 0) (initialState ())))"
proof -
  let ?st = "markProcessed ''7'' (pushSub (sameIndexTargets ! 0) (initialState ()))"
  have "index (sameIndexTargets ! 1) \<in> processedTargetIndices ?st \<longrightarrow>
          fuseStep wordLemmatizer None sameIndexTargets [] {''ok''} ''fr'' (sameIndexTargets ! 1) ?st
            = Inr ?st
          \<and> fuseLoop wordLemmatizer None sameIndexTargets [] {''ok''} ''fr''
               (sameIndexTargets ! 1 # []) ?st
            = fuseLoop wordLemmatizer None sameIndexTargets [] {''ok''} ''fr'' [] ?st
          \<and> sameIndexTargets ! 1
            \<notin> set (overlappingTargetSubs sameIndexTargets (processedTargetIndices ?st) [] [])"
    by (rule conjunct1[OF consumption_keyed_by_index_string])
  then have "fuseStep wordLemmatizer None sameIndexTargets [] {''ok''} ''fr''
               (sameIndexTargets ! 1) ?st = Inr ?st"
    using sameIndex_first_step(2) by blast
  then show ?thesis
    using sameIndex_first_step(1,2) by blast
qed

end
